theory Spec2Isabelle
  imports Main "HOL-Library.Word" "HOL-Library.Log_Nat"
begin

unbundle bit_operations_syntax

section \<open>Numbers of the program\<close>

text \<open>
  The sketch computes with \<^verbatim>\<open>double\<close>, \<^verbatim>\<open>float\<close>, \<^verbatim>\<open>int\<close>,
  \<^verbatim>\<open>uint8_t\<close>, \<^verbatim>\<open>uint32_t\<close> and \<^verbatim>\<open>unsigned long\<close> (32 bits on the ESP32-S3).
  A finite floating-point number is modelled by the rational number it denotes; an operation
  that rounds is the exact operation followed by rounding to nearest, ties to even, on a
  significand of 53 bits (\<^verbatim>\<open>double\<close>) or 24 bits (\<^verbatim>\<open>float\<close>).

  The exponent range is not modelled, which bounds the inputs on which the model is the
  program: \<open>to_float x\<close> is the \<^verbatim>\<open>float\<close> of the program while its magnitude is at most
  \<open>FLT_MAX\<close> (beyond, the program's value is infinite and prints as \<^verbatim>\<open>inf\<close>) and not
  below the least normal number; infinities, NaN and negative zero have no counterpart.
  The cast \<^verbatim>\<open>(int)x\<close> is defined in C only where the truncated value is an \<^verbatim>\<open>int\<close>:
  \<open>int_of_double x\<close> is the program's value for \<open>\<bar>x\<bar> < 2\<^sup>3\<^sup>1\<close> and says nothing of the
  program beyond. The data model \<open>in_data_model\<close> below keeps every field within these
  ranges.
\<close>

definition pow2 :: "int \<Rightarrow> rat" where
  "pow2 k = (if 0 \<le> k then 2 ^ nat k else 1 / 2 ^ nat (- k))"

definition ilog2 :: "rat \<Rightarrow> int" where
  \<comment> \<open>the binary exponent of a positive rational: \<open>pow2 (ilog2 x) \<le> x < pow2 (ilog2 x + 1)\<close>\<close>
  "ilog2 x = (let (p, q) = quotient_of x; e = bitlen p - bitlen q
              in if x < pow2 e then e - 1 else e)"

definition round_half_even :: "rat \<Rightarrow> int" where
  "round_half_even x =
     (let f = \<lfloor>x\<rfloor>; d = x - of_int f
      in if d < 1 / 2 then f else if 1 / 2 < d then f + 1
         else if even f then f else f + 1)"

definition round_to_prec :: "nat \<Rightarrow> rat \<Rightarrow> rat" where
  "round_to_prec prec x =
     (if x = 0 then 0
      else let u = pow2 (ilog2 \<bar>x\<bar> - int prec + 1)
           in of_int (round_half_even (x / u)) * u)"

definition to_double :: "rat \<Rightarrow> rat" where
  "to_double = round_to_prec 53"

definition to_float :: "rat \<Rightarrow> rat" where
  "to_float = round_to_prec 24"

definition int_of_double :: "rat \<Rightarrow> int" where
  \<comment> \<open>the cast \<^verbatim>\<open>(int)x\<close>, truncation towards zero, for \<open>\<bar>x\<bar> < 2\<^sup>3\<^sup>1\<close>\<close>
  "int_of_double x = (if 0 \<le> x then \<lfloor>x\<rfloor> else \<lceil>x\<rceil>)"


section \<open>Formatting: the conversions of \<^verbatim>\<open>snprintf\<close> the sketch uses\<close>

definition digit_char :: "nat \<Rightarrow> char" where
  "digit_char d = ''0123456789ABCDEF'' ! d"

function dec :: "int \<Rightarrow> string" where
  \<comment> \<open>the decimal digits of a number that is not negative\<close>
  "dec n = (if n < 10 then [digit_char (nat n)]
            else dec (n div 10) @ [digit_char (nat (n mod 10))])"
  by pat_completeness auto
termination
  by (relation "measure nat") auto

declare dec.simps [simp del]

definition zero_pad :: "nat \<Rightarrow> string \<Rightarrow> string \<Rightarrow> string" where
  \<comment> \<open>the flag \<^verbatim>\<open>0\<close> with a minimum width: zeros go between the sign and the digits\<close>
  "zero_pad w sg body = sg @ replicate (w - length sg - length body) (CHR ''0'') @ body"

definition fmt_d :: "nat \<Rightarrow> int \<Rightarrow> string" where
  \<comment> \<open>\<^verbatim>\<open>%0<w>d\<close>\<close>
  "fmt_d w n = zero_pad w (if n < 0 then ''-'' else []) (dec \<bar>n\<bar>)"

definition fmt_f :: "nat \<Rightarrow> nat \<Rightarrow> rat \<Rightarrow> string" where
  \<comment> \<open>\<^verbatim>\<open>%0<w>.<p>f\<close>: the exact value rounded to \<open>p\<close> decimals, ties to even\<close>
  "fmt_f w p x =
     (let n = round_half_even (\<bar>x\<bar> * 10 ^ p);
          frac = dec (n mod 10 ^ p)
      in zero_pad w (if x < 0 then ''-'' else [])
           (dec (n div 10 ^ p) @
            (if p = 0 then [] else CHR ''.'' # replicate (p - length frac) (CHR ''0'') @ frac)))"

definition fmt_02X :: "8 word \<Rightarrow> string" where
  \<comment> \<open>\<^verbatim>\<open>%02X\<close> of a \<^verbatim>\<open>uint8_t\<close>\<close>
  "fmt_02X w = [digit_char (unat w div 16), digit_char (unat w mod 16)]"

definition snprintf :: "nat \<Rightarrow> string \<Rightarrow> string" where
  \<comment> \<open>a buffer of \<open>n\<close> bytes keeps \<open>n - 1\<close> characters and the terminator\<close>
  "snprintf n s = take (n - 1) s"

definition CRLF :: string where
  "CRLF = [CHR 0x0D, CHR 0x0A]"

function String_replace :: "string \<Rightarrow> string \<Rightarrow> string \<Rightarrow> string" where
  "String_replace fnd repl s =
     (if s = [] \<or> fnd = [] then s
      else if take (length fnd) s = fnd
           then repl @ String_replace fnd repl (drop (length fnd) s)
           else hd s # String_replace fnd repl (tl s))"
  by pat_completeness auto
termination
  by (relation "measure (\<lambda>(f, r, s). length s)") (auto simp: neq_Nil_conv)

declare String_replace.simps [simp del]

section \<open>The fix snapshot\<close>

text \<open>
  Modelled from the spec: the decoder object \<^verbatim>\<open>gps\<close> is declared in the library header
  \<^verbatim>\<open>MultipleSatellite.h\<close>, which is not part of the sources. The record holds what the
  accessors used by the sketch return: a validity flag and a value per field.
\<close>

datatype FixQuality = QNone | QStandard | QDGPS | QFloatRTK | QRTK

record FixSnapshot =
  time_isValid :: bool
  time_hour :: "8 word"
  time_minute :: "8 word"
  time_second :: "8 word"
  time_centisecond :: "8 word"
  location_isValid :: bool
  location_lat :: rat
  location_lng :: rat
  location_FixQuality :: FixQuality
  satellites_isValid :: bool
  satellites_value :: "32 word"
  hdop_isValid :: bool
  hdop_hdop :: rat
  altitude_isValid :: bool
  altitude_meters :: rat
  speed_isValid :: bool
  speed_kmph :: rat
  course_isValid :: bool
  course_deg :: rat
  charsProcessed :: "32 word"
  failedChecksum :: "32 word"

section \<open>The sentence encoder\<close>

fun checksum_loop :: "string \<Rightarrow> 8 word \<Rightarrow> 8 word" where
  "checksum_loop [] checksum = checksum"
| "checksum_loop (c # cs) checksum =
     (if c = CHR ''*'' \<or> c = CHR 0x00 then checksum
      else checksum_loop cs (checksum XOR of_char c))"

definition calcNmeaChecksum :: "string \<Rightarrow> 8 word" where
  \<comment> \<open>the loop starts at index 1: the leading character is skipped unread\<close>
  "calcNmeaChecksum sentence = checksum_loop (drop 1 sentence) 0"

definition timeStr :: "FixSnapshot \<Rightarrow> string" where
  "timeStr gps =
     (if time_isValid gps
      then snprintf 12
             (fmt_d 2 (uint (time_hour gps)) @ fmt_d 2 (uint (time_minute gps)) @
              fmt_d 2 (uint (time_second gps)) @ ''.'' @
              fmt_d 3 (uint (time_centisecond gps) * 10))
      else ''000000.000'')"

definition latDir :: "FixSnapshot \<Rightarrow> char" where
  "latDir gps =
     (if location_isValid gps then (if 0 \<le> location_lat gps then CHR ''N'' else CHR ''S'')
      else CHR ''N'')"

definition latStr :: "FixSnapshot \<Rightarrow> string" where
  "latStr gps =
     (if location_isValid gps
      then (let lat = \<bar>location_lat gps\<bar>;
                latDeg = int_of_double lat;
                latMin = to_double (to_double (lat - of_int latDeg) * 60)
            in snprintf 15 (fmt_d 2 latDeg @ fmt_f 9 6 latMin))
      else [])"

definition lonDir :: "FixSnapshot \<Rightarrow> char" where
  "lonDir gps =
     (if location_isValid gps then (if 0 \<le> location_lng gps then CHR ''E'' else CHR ''W'')
      else CHR ''E'')"

definition lonStr :: "FixSnapshot \<Rightarrow> string" where
  "lonStr gps =
     (if location_isValid gps
      then (let lng = \<bar>location_lng gps\<bar>;
                lonDeg = int_of_double lng;
                lonMin = to_double (to_double (lng - of_int lonDeg) * 60)
            in snprintf 15 (fmt_d 3 lonDeg @ fmt_f 9 6 lonMin))
      else [])"

definition fixQuality :: "FixSnapshot \<Rightarrow> int" where
  "fixQuality gps = (if location_isValid gps then 1 else 0)"

definition numSats :: "FixSnapshot \<Rightarrow> int" where
  "numSats gps = (if satellites_isValid gps then sint (satellites_value gps) else 0)"

definition hdop :: "FixSnapshot \<Rightarrow> rat" where
  "hdop gps = (if hdop_isValid gps then to_float (hdop_hdop gps)
               else to_float (to_double (999 / 10)))"

definition altitude :: "FixSnapshot \<Rightarrow> rat" where
  "altitude gps = (if altitude_isValid gps then to_float (altitude_meters gps) else 0)"

definition gga_format :: "FixSnapshot \<Rightarrow> string" where
  \<comment> \<open>the expansion of the format string of the sentence, before the buffer cuts it\<close>
  "gga_format gps =
     ''$GPGGA,'' @ timeStr gps @ '','' @ latStr gps @ '','' @ [latDir gps] @ '','' @
     lonStr gps @ '','' @ [lonDir gps] @ '','' @ fmt_d 0 (fixQuality gps) @ '','' @
     fmt_d 2 (numSats gps) @ '','' @ fmt_f 0 1 (hdop gps) @ '','' @
     fmt_f 0 1 (altitude gps) @ '',M,0.0,M,,*''"

definition generateGGA :: "FixSnapshot \<Rightarrow> string" where
  "generateGGA gps =
     (let sentence = snprintf 100 (gga_format gps);
          cs = calcNmeaChecksum sentence;
          result = snprintf 110 (sentence @ fmt_02X cs @ CRLF)
      in String_replace ''**'' ''*'' result)"

section \<open>Reading a sentence back\<close>

text \<open>
  The receiver's side, written from the specification of the wire format and not from the
  sketch: the fields are the pieces between commas, and the checksum is the exclusive or of
  every byte strictly between the leading \<open>$\<close> and the first \<open>*\<close>, written as two upper-case
  hexadecimal digits right after that \<open>*\<close>.
\<close>

fun fields_of :: "string \<Rightarrow> string list" where
  "fields_of [] = [[]]"
| "fields_of (c # cs) =
     (if c = CHR '','' then [] # fields_of cs
      else (case fields_of cs of [] \<Rightarrow> [[c]] | f # fs \<Rightarrow> (c # f) # fs))"

definition spec_xor :: "string \<Rightarrow> 8 word" where
  "spec_xor payload = fold (\<lambda>c acc. acc XOR of_char c) payload 0"

definition spec_hex2 :: "8 word \<Rightarrow> string" where
  "spec_hex2 w = [''0123456789ABCDEF'' ! (unat w div 16), ''0123456789ABCDEF'' ! (unat w mod 16)]"

definition checksum_validates :: "string \<Rightarrow> bool" where
  "checksum_validates out =
     (case out of
        [] \<Rightarrow> False
      | c # rest \<Rightarrow>
          c = CHR ''$'' \<and>
          (let payload = takeWhile (\<lambda>x. x \<noteq> CHR ''*'') rest;
               after = dropWhile (\<lambda>x. x \<noteq> CHR ''*'') rest
           in after \<noteq> [] \<and> take 2 (tl after) = spec_hex2 (spec_xor payload)))"

definition no_fix :: FixSnapshot where
  \<comment> \<open>the snapshot at startup: every field invalid\<close>
  "no_fix =
     \<lparr>time_isValid = False, time_hour = 0, time_minute = 0, time_second = 0,
      time_centisecond = 0, location_isValid = False, location_lat = 0, location_lng = 0,
      location_FixQuality = QNone, satellites_isValid = False, satellites_value = 0,
      hdop_isValid = False, hdop_hdop = 0, altitude_isValid = False, altitude_meters = 0,
      speed_isValid = False, speed_kmph = 0, course_isValid = False, course_deg = 0,
      charsProcessed = 0, failedChecksum = 0\<rparr>"

definition all_invalid :: "FixSnapshot \<Rightarrow> bool" where
  "all_invalid gps \<longleftrightarrow>
     \<not> time_isValid gps \<and> \<not> location_isValid gps \<and> \<not> satellites_isValid gps \<and>
     \<not> hdop_isValid gps \<and> \<not> altitude_isValid gps \<and> \<not> speed_isValid gps \<and>
     \<not> course_isValid gps"

definition no_fix_sentence :: string where
  "no_fix_sentence = ''$GPGGA,000000.000,,N,,E,0,00,99.9,0.0,M,0.0,M,,*64'' @ CRLF"

definition fits_buffer :: "FixSnapshot \<Rightarrow> bool" where
  \<comment> \<open>the expanded sentence is not cut by the 100 bytes of \<^verbatim>\<open>sentence\<close>\<close>
  "fits_buffer gps \<longleftrightarrow> length (gga_format gps) \<le> 99"

definition gga_head :: "FixSnapshot \<Rightarrow> string" where
  \<comment> \<open>the sentence up to the comma after the fix-quality field\<close>
  "gga_head gps =
     ''$GPGGA,'' @ timeStr gps @ '','' @ latStr gps @ '','' @ [latDir gps] @ '','' @
     lonStr gps @ '','' @ [lonDir gps] @ '','' @ fmt_d 0 (fixQuality gps) @ '',''"

definition gga_tail :: "FixSnapshot \<Rightarrow> string" where
  "gga_tail gps =
     fmt_d 2 (numSats gps) @ '','' @ fmt_f 0 1 (hdop gps) @ '','' @
     fmt_f 0 1 (altitude gps) @ '',M,0.0,M,,*''"

definition gga_payload :: "FixSnapshot \<Rightarrow> string" where
  \<comment> \<open>what stands between the \<open>$\<close> and the \<open>*\<close> of the format\<close>
  "gga_payload gps =
     ''GPGGA,'' @ timeStr gps @ '','' @ latStr gps @ '','' @ [latDir gps] @ '','' @
     lonStr gps @ '','' @ [lonDir gps] @ '','' @ fmt_d 0 (fixQuality gps) @ '','' @
     fmt_d 2 (numSats gps) @ '','' @ fmt_f 0 1 (hdop gps) @ '','' @
     fmt_f 0 1 (altitude gps) @ '',M,0.0,M,,''"

definition numeric :: "string \<Rightarrow> bool" where
  "numeric s \<longleftrightarrow> set s \<subseteq> set ''-.0123456789''"

definition nmea_degrees :: "nat \<Rightarrow> rat \<Rightarrow> string" where
  \<comment> \<open>the block shared by latitude (\<open>w = 2\<close>) and longitude (\<open>w = 3\<close>)\<close>
  "nmea_degrees w x =
     (let v = \<bar>x\<bar>;
          deg = int_of_double v;
          mins = to_double (to_double (v - of_int deg) * 60)
      in snprintf 15 (fmt_d w deg @ fmt_f 9 6 mins))"

definition plausible :: "FixSnapshot \<Rightarrow> bool" where
  \<comment> \<open>magnitudes far beyond any fix on Earth, within which the sentence fits its buffer\<close>
  "plausible gps \<longleftrightarrow>
     0 \<le> numSats gps \<and> \<bar>hdop gps\<bar> < 1000000 \<and> \<bar>altitude gps\<bar> < 1000000"

definition in_data_model :: "FixSnapshot \<Rightarrow> bool" where
  \<comment> \<open>the values a valid field can hold: a time of day in two digits each, coordinates an
      \<^verbatim>\<open>int\<close> can truncate, an HDOP that is not negative, and HDOP and altitude within the
      hundredths of a 32-bit count\<close>
  "in_data_model gps \<longleftrightarrow>
     (time_isValid gps \<longrightarrow>
        time_hour gps < 100 \<and> time_minute gps < 100 \<and> time_second gps < 100 \<and>
        time_centisecond gps < 100) \<and>
     (location_isValid gps \<longrightarrow>
        \<bar>location_lat gps\<bar> < 2147483648 \<and> \<bar>location_lng gps\<bar> < 2147483648) \<and>
     (hdop_isValid gps \<longrightarrow> 0 \<le> hdop_hdop gps \<and> hdop_hdop gps \<le> 2147483647 / 100) \<and>
     (altitude_isValid gps \<longrightarrow> \<bar>altitude_meters gps\<bar> \<le> 2147483648 / 100)"

definition sample_fix :: FixSnapshot where
  "sample_fix =
     no_fix\<lparr>time_isValid := True, time_hour := 12, time_minute := 35, time_second := 19,
            time_centisecond := 5,
            location_isValid := True, location_lat := to_double (37422 / 1000),
            location_lng := to_double (- 122084 / 1000), location_FixQuality := QDGPS,
            satellites_isValid := True, satellites_value := 8,
            hdop_isValid := True, hdop_hdop := to_double (9 / 10),
            altitude_isValid := True, altitude_meters := to_double (5454 / 10)\<rparr>"

definition widest_fix :: FixSnapshot where
  \<comment> \<open>outside the data model: a negative HDOP beside the widest coordinates, count and
      altitude\<close>
  "widest_fix =
     no_fix\<lparr>location_isValid := True, location_lat := 20001 / 2, location_lng := - (20001 / 2),
            satellites_isValid := True, satellites_value := 2147483648,
            hdop_isValid := True, hdop_hdop := to_double (- 2147483648 / 100),
            altitude_isValid := True, altitude_meters := to_double (- 2147483648 / 100)\<rparr>"

section \<open>The satellite view: the HDOP line\<close>

datatype Color = BLACK | WHITE | GREEN | YELLOW | ORANGE | CYAN | DARKGREY | RED







section \<open>The state of the sketch\<close>

datatype DisplayMode = MODE_MAIN | MODE_SATELLITES | MODE_SPEED_ALT

definition MODE_COUNT :: int where
  "MODE_COUNT = 3"

fun DisplayMode_value :: "DisplayMode \<Rightarrow> int" where
  "DisplayMode_value MODE_MAIN = 0"
| "DisplayMode_value MODE_SATELLITES = 1"
| "DisplayMode_value MODE_SPEED_ALT = 2"

definition DisplayMode_cast :: "int \<Rightarrow> DisplayMode" where
  \<comment> \<open>the cast \<^verbatim>\<open>(DisplayMode)n\<close>, applied by the sketch to values below \<open>MODE_COUNT\<close> only\<close>
  "DisplayMode_cast n = (if n = 0 then MODE_MAIN else if n = 1 then MODE_SATELLITES
                         else MODE_SPEED_ALT)"

definition BRIGHTNESS_LEVELS :: "8 word list" where
  "BRIGHTNESS_LEVELS = [255, 128, 40]"

definition BRIGHTNESS_COUNT :: "8 word" where
  "BRIGHTNESS_COUNT = 3"

definition SAVE_INTERVAL :: "32 word" where
  "SAVE_INTERVAL = 60000"

definition BLE_TRANSMIT_INTERVAL :: "32 word" where
  "BLE_TRANSMIT_INTERVAL = 1000"

text \<open>
  The key-value store \<^verbatim>\<open>Preferences\<close> is a map from keys to typed values; a read of a
  missing key, or of a key holding another type, returns the default passed to it.
\<close>

datatype nvs_value = NvsDouble rat | NvsUChar "8 word"

type_synonym Preferences = "string \<rightharpoonup> nvs_value"

definition isKey :: "Preferences \<Rightarrow> string \<Rightarrow> bool" where
  "isKey p k \<longleftrightarrow> p k \<noteq> None"

definition getDouble :: "Preferences \<Rightarrow> string \<Rightarrow> rat \<Rightarrow> rat" where
  "getDouble p k dflt = (case p k of Some (NvsDouble d) \<Rightarrow> d | _ \<Rightarrow> dflt)"

definition getUChar :: "Preferences \<Rightarrow> string \<Rightarrow> 8 word \<Rightarrow> 8 word" where
  "getUChar p k dflt = (case p k of Some (NvsUChar c) \<Rightarrow> c | _ \<Rightarrow> dflt)"

record State =
  prefs :: Preferences
  prefs_puts :: "(string \<times> nvs_value) list"
  lastLat :: rat
  lastLng :: rat
  hasLastPosition :: bool
  lastSaveTime :: "32 word"
  currentMode :: DisplayMode
  brightnessIndex :: "8 word"
  display_brightness :: "8 word"
  pTxCharacteristic :: bool
  bleConnected :: bool
  bleConnectedCount :: "32 word"
  lastBleTransmit :: "32 word"
  deviceName :: string
  deviceId :: string
  notified :: "string list"
  advertising_restarts :: nat

text \<open>
  \<open>prefs_puts\<close> lists the writes to the store and \<open>notified\<close> the values sent to the radio
  peer, oldest first; \<open>pTxCharacteristic\<close> tells whether the pointer is non-null.
\<close>

definition power_on :: "Preferences \<Rightarrow> State" where
  \<comment> \<open>the initialisers of the global variables, over the store left by earlier runs\<close>
  "power_on p =
     \<lparr>prefs = p, prefs_puts = [], lastLat = 0, lastLng = 0, hasLastPosition = False,
      lastSaveTime = 0, currentMode = MODE_MAIN, brightnessIndex = 0,
      display_brightness = 255, pTxCharacteristic = False, bleConnected = False,
      bleConnectedCount = 0, lastBleTransmit = 0, deviceName = ''AtomS3-GPS'',
      deviceId = [], notified = [], advertising_restarts = 0\<rparr>"

definition putDouble :: "string \<Rightarrow> rat \<Rightarrow> State \<Rightarrow> State" where
  "putDouble k v s =
     s\<lparr>prefs := (prefs s)(k \<mapsto> NvsDouble v), prefs_puts := prefs_puts s @ [(k, NvsDouble v)]\<rparr>"

definition putUChar :: "string \<Rightarrow> 8 word \<Rightarrow> State \<Rightarrow> State" where
  "putUChar k v s =
     s\<lparr>prefs := (prefs s)(k \<mapsto> NvsUChar v), prefs_puts := prefs_puts s @ [(k, NvsUChar v)]\<rparr>"

definition notify :: "string \<Rightarrow> State \<Rightarrow> State" where
  \<comment> \<open>\<^verbatim>\<open>pTxCharacteristic->setValue(...); pTxCharacteristic->notify();\<close>\<close>
  "notify bytes s = s\<lparr>notified := notified s @ [bytes]\<rparr>"

section \<open>Startup\<close>

definition load_position :: "State \<Rightarrow> State" where
  "load_position s =
     (if isKey (prefs s) ''lat''
      then (let lat = getDouble (prefs s) ''lat'' 0;
                lng = getDouble (prefs s) ''lng'' 0
            in s\<lparr>lastLat := lat, lastLng := lng, hasLastPosition := (lat \<noteq> 0 \<or> lng \<noteq> 0)\<rparr>)
      else s)"

definition load_brightness :: "State \<Rightarrow> State" where
  "load_brightness s =
     (if isKey (prefs s) ''bright''
      then (let b = getUChar (prefs s) ''bright'' 0;
                b' = (if b \<ge> BRIGHTNESS_COUNT then 0 else b)
            in s\<lparr>brightnessIndex := b', display_brightness := BRIGHTNESS_LEVELS ! unat b'\<rparr>)
      else s)"

definition initBLE :: "8 word \<Rightarrow> 8 word \<Rightarrow> State \<Rightarrow> State" where
  \<comment> \<open>the arguments are the bytes \<^verbatim>\<open>mac[4]\<close> and \<^verbatim>\<open>mac[5]\<close> of the radio address\<close>
  "initBLE mac4 mac5 s =
     (let ident = snprintf 5 (fmt_02X mac4 @ fmt_02X mac5)
      in s\<lparr>deviceId := ident, deviceName := snprintf 20 (''AtomS3-GPS-'' @ ident),
            pTxCharacteristic := True\<rparr>)"

definition sketch_setup :: "8 word \<Rightarrow> 8 word \<Rightarrow> State \<Rightarrow> State" where
  "sketch_setup mac4 mac5 s = initBLE mac4 mac5 (load_brightness (load_position s))"

section \<open>The radio relay\<close>

definition device_info_sentence :: "State \<Rightarrow> string" where
  "device_info_sentence s =
     (let sentence = snprintf 60 (''$PATOM,'' @ deviceId s @ '','' @ deviceName s @ ''*'');
          cs = calcNmeaChecksum sentence;
          msg = snprintf 70 (sentence @ fmt_02X cs @ CRLF)
      in String_replace ''**'' ''*'' msg)"

definition sendBleDeviceInfo :: "State \<Rightarrow> State" where
  "sendBleDeviceInfo s =
     (if \<not> bleConnected s \<or> \<not> pTxCharacteristic s then s
      else notify (device_info_sentence s) s)"

definition sendBleGGA :: "FixSnapshot \<Rightarrow> State \<Rightarrow> State" where
  "sendBleGGA gps s =
     (if \<not> bleConnected s \<or> \<not> pTxCharacteristic s then s
      else notify (generateGGA gps) s)"

definition onConnect :: "State \<Rightarrow> State" where
  "onConnect s =
     sendBleDeviceInfo (s\<lparr>bleConnected := True, bleConnectedCount := bleConnectedCount s + 1\<rparr>)"

definition onDisconnect :: "State \<Rightarrow> State" where
  "onDisconnect s =
     s\<lparr>bleConnected := False, advertising_restarts := advertising_restarts s + 1\<rparr>"

section \<open>One iteration of the main loop\<close>

text \<open>
  What one iteration reads from outside: the two button events, the snapshot left by
  \<^verbatim>\<open>gps.updateGPS()\<close>, and the value of each call of \<^verbatim>\<open>millis()\<close> that decides or
  stamps a transmission or a save. Drawing the display changes nothing in the state.
\<close>

record LoopInput =
  wasHold :: bool
  wasClicked :: bool
  gps_fix :: FixSnapshot
  millis_ble :: "32 word"
  millis_ble_stamp :: "32 word"
  millis_save :: "32 word"
  millis_save_stamp :: "32 word"

definition handle_button :: "LoopInput \<Rightarrow> State \<Rightarrow> State" where
  "handle_button i s =
     (if wasHold i
      then (let b = (of_nat ((unat (brightnessIndex s) + 1) mod unat BRIGHTNESS_COUNT) :: 8 word)
            in putUChar ''bright'' b
                 (s\<lparr>brightnessIndex := b, display_brightness := BRIGHTNESS_LEVELS ! unat b\<rparr>))
      else if wasClicked i
      then s\<lparr>currentMode :=
               DisplayMode_cast ((DisplayMode_value (currentMode s) + 1) mod MODE_COUNT)\<rparr>
      else s)"

definition ble_due :: "LoopInput \<Rightarrow> State \<Rightarrow> bool" where
  "ble_due i s \<longleftrightarrow> bleConnected s \<and> millis_ble i - lastBleTransmit s > BLE_TRANSMIT_INTERVAL"

definition relay_position :: "LoopInput \<Rightarrow> State \<Rightarrow> State" where
  "relay_position i s =
     (if ble_due i s
      then sendBleGGA (gps_fix i) (s\<lparr>lastBleTransmit := millis_ble_stamp i\<rparr>)
      else s)"

definition save_due :: "LoopInput \<Rightarrow> State \<Rightarrow> bool" where
  "save_due i s \<longleftrightarrow>
     location_isValid (gps_fix i) \<and> millis_save i - lastSaveTime s > SAVE_INTERVAL"

definition save_position :: "LoopInput \<Rightarrow> State \<Rightarrow> State" where
  "save_position i s =
     (if save_due i s
      then putDouble ''lng'' (location_lng (gps_fix i))
             (putDouble ''lat'' (location_lat (gps_fix i))
                (s\<lparr>lastSaveTime := millis_save_stamp i, lastLat := location_lat (gps_fix i),
                   lastLng := location_lng (gps_fix i), hasLastPosition := True\<rparr>))
      else s)"

definition loop :: "LoopInput \<Rightarrow> State \<Rightarrow> State" where
  "loop i s = save_position i (relay_position i (handle_button i s))"

datatype Event = Connect | Disconnect | Loop LoopInput

fun step :: "Event \<Rightarrow> State \<Rightarrow> State" where
  "step Connect s = onConnect s"
| "step Disconnect s = onDisconnect s"
| "step (Loop i) s = loop i s"

fun run :: "Event list \<Rightarrow> State \<Rightarrow> State" where
  "run [] s = s"
| "run (e # es) s = run es (step e s)"

section \<open>Observing a run\<close>

text \<open>
  The clock readings of a run in the order the sketch takes them, and the readings at which
  a loop iteration sent a position sentence or wrote the position to the store.
\<close>

fun readings :: "Event \<Rightarrow> 32 word list" where
  "readings (Loop i) = [millis_ble i, millis_ble_stamp i, millis_save i, millis_save_stamp i]"
| "readings _ = []"

definition clock_readings :: "Event list \<Rightarrow> nat list" where
  "clock_readings es = map unat (concat (map readings es))"

definition sends_position :: "LoopInput \<Rightarrow> State \<Rightarrow> bool" where
  "sends_position i s \<longleftrightarrow> notified (loop i s) \<noteq> notified s"

definition position_writes :: "State \<Rightarrow> nat" where
  "position_writes s = length (filter (\<lambda>kv. fst kv = ''lat'') (prefs_puts s))"

definition saves_position :: "LoopInput \<Rightarrow> State \<Rightarrow> bool" where
  "saves_position i s \<longleftrightarrow> position_writes (loop i s) \<noteq> position_writes s"

fun position_times :: "Event list \<Rightarrow> State \<Rightarrow> 32 word list" where
  "position_times [] s = []"
| "position_times (Loop i # es) s =
     (if sends_position i s then [millis_ble i] else []) @ position_times es (loop i s)"
| "position_times (e # es) s = position_times es (step e s)"

fun save_times :: "Event list \<Rightarrow> State \<Rightarrow> 32 word list" where
  "save_times [] s = []"
| "save_times (Loop i # es) s =
     (if saves_position i s then [millis_save i] else []) @ save_times es (loop i s)"
| "save_times (e # es) s = save_times es (step e s)"

fun short_presses :: "Event list \<Rightarrow> nat" where
  "short_presses [] = 0"
| "short_presses (Loop i # es) =
     (if wasClicked i \<and> \<not> wasHold i then 1 else 0) + short_presses es"
| "short_presses (e # es) = short_presses es"

definition idle :: LoopInput where
  \<comment> \<open>an iteration at time 0 without button event or fix\<close>
  "idle = \<lparr>wasHold = False, wasClicked = False, gps_fix = no_fix, millis_ble = 0,
           millis_ble_stamp = 0, millis_save = 0, millis_save_stamp = 0\<rparr>"

definition at_time :: "32 word \<Rightarrow> LoopInput \<Rightarrow> LoopInput" where
  \<comment> \<open>an iteration all of whose clock readings are \<open>t\<close>\<close>
  "at_time t i = i\<lparr>millis_ble := t, millis_ble_stamp := t, millis_save := t,
                      millis_save_stamp := t\<rparr>"

definition started :: State where
  \<comment> \<open>the state after \<^verbatim>\<open>setup()\<close> on an empty store\<close>
  "started = sketch_setup 0xA1 0xB2 (power_on Map.empty)"

definition next_mode :: "DisplayMode \<Rightarrow> DisplayMode" where
  "next_mode m = DisplayMode_cast ((DisplayMode_value m + 1) mod MODE_COUNT)"

definition short_press :: LoopInput where
  "short_press = idle\<lparr>wasClicked := True\<rparr>"

definition long_press :: LoopInput where
  "long_press = idle\<lparr>wasHold := True\<rparr>"

definition zero_position :: Preferences where
  \<comment> \<open>a store whose position key exists and holds latitude and longitude 0.0\<close>
  "zero_position = [''lat'' \<mapsto> NvsDouble 0, ''lng'' \<mapsto> NvsDouble 0]"


definition is_identification :: "string \<Rightarrow> bool" where
  "is_identification m \<longleftrightarrow> take 6 m = ''$PATOM''"

definition is_position :: "string \<Rightarrow> bool" where
  "is_position m \<longleftrightarrow> take 6 m = ''$GPGGA''"

definition fix_at :: "32 word \<Rightarrow> LoopInput" where
  \<comment> \<open>an iteration at time \<open>t\<close> that sees the valid fix \<open>sample_fix\<close>\<close>
  "fix_at t = at_time t (idle\<lparr>gps_fix := sample_fix\<rparr>)"

section \<open>The sentence of a snapshot without any valid field\<close>

lemma fmt_default_hdop: "fmt_f 0 1 (to_float (to_double (999 / 10))) = ''99.9''"
  by code_simp

lemma fmt_default_altitude: "fmt_f 0 1 0 = ''0.0''"
  by code_simp

lemma fmt_d_zero: "fmt_d 0 0 = ''0''" "fmt_d 2 0 = ''00''"
  by code_simp+

lemma gga_format_all_invalid:
  assumes "all_invalid gps"
  shows "gga_format gps = ''$GPGGA,000000.000,,N,,E,0,00,99.9,0.0,M,0.0,M,,*''"
  using assms
  by (simp add: all_invalid_def gga_format_def timeStr_def latStr_def latDir_def lonStr_def
      lonDir_def fixQuality_def numSats_def hdop_def altitude_def fmt_default_hdop
      fmt_default_altitude fmt_d_zero del: One_nat_def)

lemma no_fix_sentence_closed:
  "String_replace ''**'' ''*''
     (snprintf 110
        (snprintf 100 ''$GPGGA,000000.000,,N,,E,0,00,99.9,0.0,M,0.0,M,,*'' @
         fmt_02X (calcNmeaChecksum
                    (snprintf 100 ''$GPGGA,000000.000,,N,,E,0,00,99.9,0.0,M,0.0,M,,*'')) @
         CRLF)) = no_fix_sentence"
  by code_simp

lemma generateGGA_all_invalid:
  "all_invalid gps \<Longrightarrow> generateGGA gps = no_fix_sentence"
  by (simp only: generateGGA_def Let_def gga_format_all_invalid no_fix_sentence_closed)

lemma no_fix_fields:
  "fields_of no_fix_sentence =
   [''$GPGGA'', ''000000.000'', [], ''N'', [], ''E'', ''0'', ''00'', ''99.9'', ''0.0'',
    ''M'', ''0.0'', ''M'', [], ''*64'' @ CRLF]"
  by code_simp

lemma no_fix_validates: "checksum_validates no_fix_sentence"
  by code_simp

text \<open>
  Claim C2. When no field of the snapshot is valid, the position sentence is
  \<open>$GPGGA,000000.000,,N,,E,0,00,99.9,0.0,M,0.0,M,,*64\<close> followed by CR LF: the fix-quality
  field is \<open>0\<close>, the satellite count \<open>00\<close>, the HDOP \<open>99.9\<close>, the altitude \<open>0.0\<close>, the
  latitude and longitude fields are empty, and the appended checksum validates.
\<close>

theorem all_invalid_sentence:
  assumes "all_invalid gps"
  shows "generateGGA gps = ''$GPGGA,000000.000,,N,,E,0,00,99.9,0.0,M,0.0,M,,*64'' @ CRLF \<and>
         fields_of (generateGGA gps) ! 6 = ''0'' \<and>
         fields_of (generateGGA gps) ! 7 = ''00'' \<and>
         fields_of (generateGGA gps) ! 8 = ''99.9'' \<and>
         fields_of (generateGGA gps) ! 9 = ''0.0'' \<and>
         fields_of (generateGGA gps) ! 2 = [] \<and>
         fields_of (generateGGA gps) ! 4 = [] \<and>
         checksum_validates (generateGGA gps)"
proof -
  have g: "generateGGA gps = no_fix_sentence"
    using assms by (rule generateGGA_all_invalid)
  have "no_fix_sentence = ''$GPGGA,000000.000,,N,,E,0,00,99.9,0.0,M,0.0,M,,*64'' @ CRLF"
    by (simp only: no_fix_sentence_def)
  moreover have "fields_of no_fix_sentence ! 6 = ''0''" "fields_of no_fix_sentence ! 7 = ''00''"
    "fields_of no_fix_sentence ! 8 = ''99.9''" "fields_of no_fix_sentence ! 9 = ''0.0''"
    "fields_of no_fix_sentence ! 2 = []" "fields_of no_fix_sentence ! 4 = []"
    by (simp_all add: no_fix_fields)
  ultimately show ?thesis
    unfolding g using no_fix_validates by blast
qed

theorem all_invalid_sentence_witness:
  "all_invalid no_fix \<and>
   generateGGA no_fix = ''$GPGGA,000000.000,,N,,E,0,00,99.9,0.0,M,0.0,M,,*64'' @ CRLF \<and>
   fields_of (generateGGA no_fix) ! 6 = ''0'' \<and> checksum_validates (generateGGA no_fix)"
proof -
  have h: "all_invalid no_fix"
    by (simp add: all_invalid_def no_fix_def)
  from h all_invalid_sentence [OF h] show ?thesis by blast
qed

section \<open>The characters of the formatted fields\<close>

lemma numeric_append [simp]: "numeric (a @ b) \<longleftrightarrow> numeric a \<and> numeric b"
  by (auto simp: numeric_def)

lemma numeric_Nil [simp]: "numeric []"
  by (simp add: numeric_def)

lemma numeric_take: "numeric s \<Longrightarrow> numeric (take n s)"
  unfolding numeric_def using set_take_subset by fastforce

lemma numeric_snprintf: "numeric s \<Longrightarrow> numeric (snprintf n s)"
  by (simp add: snprintf_def numeric_take)

lemma numeric_replicate_zero [simp]: "numeric (replicate n (CHR ''0''))"
  by (auto simp: numeric_def)

lemma numeric_signs [simp]: "numeric ''-''" "numeric ''.''"
  by (simp_all add: numeric_def)

lemma numeric_Cons_dot: "numeric s \<Longrightarrow> numeric (CHR ''.'' # s)"
  by (simp add: numeric_def)

lemma digit_char_numeric: "d < 10 \<Longrightarrow> numeric [digit_char d]"
proof -
  assume "d < 10"
  then have "d \<in> {0, 1, 2, 3, 4, 5, 6, 7, 8, 9}" by auto
  then show ?thesis
    by (auto simp: numeric_def digit_char_def)
qed

lemma numeric_dec: "numeric (dec n)"
proof (induction n rule: dec.induct)
  case (1 n)
  show ?case
  proof (cases "n < 10")
    case True
    then have "nat n < 10" by simp
    then show ?thesis using True by (subst dec.simps) (simp add: digit_char_numeric)
  next
    case False
    then have "numeric (dec (n div 10))" by (rule "1.IH")
    moreover have "nat (n mod 10) < 10" by simp
    then have "numeric [digit_char (nat (n mod 10))]" by (rule digit_char_numeric)
    ultimately show ?thesis using False by (subst dec.simps) simp
  qed
qed

lemma numeric_fmt_d: "numeric (fmt_d w n)"
  by (simp add: fmt_d_def zero_pad_def numeric_dec)

lemma numeric_fmt_f: "numeric (fmt_f w p x)"
  by (simp add: fmt_f_def zero_pad_def numeric_dec Let_def numeric_Cons_dot)

lemma numeric_timeStr: "numeric (timeStr gps)"
proof (cases "time_isValid gps")
  case True
  have "numeric (fmt_d 2 (uint (time_hour gps)) @ fmt_d 2 (uint (time_minute gps)) @
              fmt_d 2 (uint (time_second gps)) @ ''.'' @
              fmt_d 3 (uint (time_centisecond gps) * 10))"
    by (simp add: numeric_fmt_d numeric_Cons_dot)
  then show ?thesis
    using True unfolding timeStr_def by (simp only: if_True numeric_snprintf)
next
  case False
  then show ?thesis by (simp add: timeStr_def numeric_def)
qed

lemma numeric_latStr: "numeric (latStr gps)"
  unfolding latStr_def Let_def
  by (auto intro!: numeric_snprintf simp: numeric_fmt_d numeric_fmt_f)

lemma numeric_lonStr: "numeric (lonStr gps)"
  unfolding lonStr_def Let_def
  by (auto intro!: numeric_snprintf simp: numeric_fmt_d numeric_fmt_f)

lemma numeric_plain:
  "numeric s \<Longrightarrow> c \<in> set s \<Longrightarrow> c \<noteq> CHR ''*'' \<and> c \<noteq> CHR 0x00 \<and> c \<noteq> CHR '',''"
  by (auto simp: numeric_def)

lemma latDir_cases: "latDir gps = CHR ''N'' \<or> latDir gps = CHR ''S''"
  by (simp add: latDir_def)

lemma lonDir_cases: "lonDir gps = CHR ''E'' \<or> lonDir gps = CHR ''W''"
  by (simp add: lonDir_def)

lemma digit_char_mem: "d < 16 \<Longrightarrow> digit_char d \<in> set ''0123456789ABCDEF''"
  unfolding digit_char_def by (rule nth_mem) simp

lemma digit_char_hex_plain:
  "d < 16 \<Longrightarrow> digit_char d \<noteq> CHR ''*'' \<and> digit_char d \<noteq> CHR '',''"
  using digit_char_mem [of d] by auto

lemma fmt_02X_plain: "CHR ''*'' \<notin> set (fmt_02X w) \<and> CHR '','' \<notin> set (fmt_02X w)"
proof -
  have "unat w div 16 < 16" using unsigned_less [of w, where 'a = nat] by simp
  then have "digit_char (unat w div 16) \<noteq> CHR ''*'' \<and> digit_char (unat w div 16) \<noteq> CHR '',''"
    by (rule digit_char_hex_plain)
  moreover have "digit_char (unat w mod 16) \<noteq> CHR ''*'' \<and> digit_char (unat w mod 16) \<noteq> CHR '',''"
    by (rule digit_char_hex_plain) simp
  ultimately show ?thesis
    by (auto simp: fmt_02X_def)
qed

lemma length_fmt_02X [simp]: "length (fmt_02X w) = 2"
  by (simp add: fmt_02X_def)

lemma spec_hex2_eq: "spec_hex2 w = fmt_02X w"
  by (simp add: spec_hex2_def fmt_02X_def digit_char_def)

section \<open>Replacement and checksum on a sentence with a single star\<close>

lemma replace_no_star:
  "CHR ''*'' \<notin> set s \<Longrightarrow> String_replace ''**'' ''*'' s = s"
proof (induction s)
  case Nil
  show ?case by (subst String_replace.simps) simp
next
  case (Cons c s)
  then have "c \<noteq> CHR ''*''" and ih: "String_replace ''**'' ''*'' s = s" by auto
  then show ?case by (subst String_replace.simps) (simp add: ih)
qed

lemma replace_prefix:
  "CHR ''*'' \<notin> set a \<Longrightarrow>
   String_replace ''**'' ''*'' (a @ b) = a @ String_replace ''**'' ''*'' b"
proof (induction a)
  case Nil
  show ?case by simp
next
  case (Cons c a)
  then have "c \<noteq> CHR ''*''"
    and ih: "String_replace ''**'' ''*'' (a @ b) = a @ String_replace ''**'' ''*'' b" by auto
  then show ?case by (subst String_replace.simps) (simp add: ih)
qed

lemma replace_single_star:
  assumes "CHR ''*'' \<notin> set b" "b \<noteq> []"
  shows "String_replace ''**'' ''*'' (CHR ''*'' # b) = CHR ''*'' # b"
proof -
  obtain x b' where b: "b = x # b'" using assms(2) by (cases b) auto
  with assms(1) have "x \<noteq> CHR ''*''" by auto
  then have "take (length ''**'') (CHR ''*'' # b) \<noteq> ''**''" by (simp add: b)
  then show ?thesis
    by (subst String_replace.simps) (simp add: replace_no_star [OF assms(1)])
qed

lemma checksum_loop_fold:
  "\<forall>c \<in> set p. c \<noteq> CHR ''*'' \<and> c \<noteq> CHR 0x00 \<Longrightarrow>
   checksum_loop (p @ CHR ''*'' # rest) acc = fold (\<lambda>c a. a XOR of_char c) p acc"
  by (induction p arbitrary: acc) auto

lemma gga_format_payload: "gga_format gps = CHR ''$'' # gga_payload gps @ ''*''"
  by (simp add: gga_format_def gga_payload_def)

lemma payload_plain:
  "\<forall>c \<in> set (gga_payload gps). c \<noteq> CHR ''*'' \<and> c \<noteq> CHR 0x00"
proof -
  note f = numeric_plain [OF numeric_timeStr] numeric_plain [OF numeric_latStr]
    numeric_plain [OF numeric_lonStr] numeric_plain [OF numeric_fmt_d]
    numeric_plain [OF numeric_fmt_f]
  show ?thesis
    using latDir_cases [of gps] lonDir_cases [of gps]
    by (auto simp: gga_payload_def dest: f)
qed

lemma generateGGA_fits:
  assumes "fits_buffer gps"
  shows "generateGGA gps =
         CHR ''$'' # gga_payload gps @ CHR ''*'' # fmt_02X (spec_xor (gga_payload gps)) @ CRLF"
proof -
  let ?p = "gga_payload gps"
  let ?cs = "spec_xor ?p"
  have plain: "\<forall>c \<in> set ?p. c \<noteq> CHR ''*'' \<and> c \<noteq> CHR 0x00"
    by (rule payload_plain)
  have len: "length (CHR ''$'' # ?p @ ''*'') \<le> 99"
    using assms by (simp add: fits_buffer_def gga_format_payload)
  have sentence: "snprintf 100 (gga_format gps) = CHR ''$'' # ?p @ ''*''"
    using len by (simp add: snprintf_def gga_format_payload)
  have cs: "calcNmeaChecksum (CHR ''$'' # ?p @ ''*'') = ?cs"
    using checksum_loop_fold [OF plain, of "[]" 0]
    by (simp add: calcNmeaChecksum_def spec_xor_def)
  have result: "snprintf 110 ((CHR ''$'' # ?p @ ''*'') @ fmt_02X ?cs @ CRLF) =
      (CHR ''$'' # ?p) @ CHR ''*'' # fmt_02X ?cs @ CRLF"
    using len by (simp add: snprintf_def CRLF_def)
  have nostar: "CHR ''*'' \<notin> set (CHR ''$'' # ?p)"
    using plain by auto
  have tail: "CHR ''*'' \<notin> set (fmt_02X ?cs @ CRLF)" "fmt_02X ?cs @ CRLF \<noteq> []"
    using fmt_02X_plain [of ?cs] by (simp_all add: CRLF_def)
  have "String_replace ''**'' ''*'' ((CHR ''$'' # ?p) @ CHR ''*'' # fmt_02X ?cs @ CRLF) =
      (CHR ''$'' # ?p) @ String_replace ''**'' ''*'' (CHR ''*'' # fmt_02X ?cs @ CRLF)"
    using nostar by (rule replace_prefix)
  also have "\<dots> = (CHR ''$'' # ?p) @ CHR ''*'' # fmt_02X ?cs @ CRLF"
    by (simp only: replace_single_star [OF tail])
  finally show ?thesis
    unfolding generateGGA_def Let_def sentence cs result by simp
qed

lemma validates_framed:
  assumes "\<forall>c \<in> set p. c \<noteq> CHR ''*''"
  shows "checksum_validates (CHR ''$'' # p @ CHR ''*'' # fmt_02X (spec_xor p) @ CRLF)"
proof -
  have tw: "takeWhile (\<lambda>x. x \<noteq> CHR ''*'') (p @ CHR ''*'' # fmt_02X (spec_xor p) @ CRLF) = p"
    using assms by (simp add: takeWhile_tail)
  have dw: "dropWhile (\<lambda>x. x \<noteq> CHR ''*'') (p @ CHR ''*'' # fmt_02X (spec_xor p) @ CRLF) =
      CHR ''*'' # fmt_02X (spec_xor p) @ CRLF"
    using assms by (simp add: dropWhile_append3)
  show ?thesis
    unfolding checksum_validates_def by (simp add: tw dw spec_hex2_eq)
qed

section \<open>The length of the sentence\<close>

lemma length_dec_digit: "n < 10 \<Longrightarrow> length (dec n) = 1"
  by (subst dec.simps) simp

lemma length_dec: "n < 10 ^ k \<Longrightarrow> 0 < k \<Longrightarrow> length (dec n) \<le> k"
proof (induction n arbitrary: k rule: dec.induct)
  case (1 n)
  show ?case
  proof (cases "n < 10")
    case True
    then show ?thesis using "1.prems" by (simp add: length_dec_digit)
  next
    case False
    then obtain j where k: "k = Suc j" and j: "0 < j"
      using "1.prems" by (cases k; cases "k - 1") auto
    have "n < 10 * 10 ^ j"
      using "1.prems"(1) by (simp add: k)
    then have "n div 10 < 10 ^ j"
      by arith
    then have "length (dec (n div 10)) \<le> j"
      using "1.IH" False j by blast
    then show ?thesis
      using False by (subst dec.simps) (simp add: k)
  qed
qed

lemma length_zero_pad:
  "length (zero_pad w sg body) = max w (length sg + length body)"
  by (auto simp: zero_pad_def)

lemma round_half_even_le: "round_half_even x \<le> \<lfloor>x\<rfloor> + 1"
  by (simp add: round_half_even_def Let_def)

lemma round_half_even_ge: "\<lfloor>x\<rfloor> \<le> round_half_even x"
  by (simp add: round_half_even_def Let_def)

lemma length_fmt_f_1:
  assumes "\<bar>x\<bar> < 1000000"
  shows "length (fmt_f 0 1 x) \<le> 10"
proof -
  define n where "n = round_half_even (\<bar>x\<bar> * 10 ^ 1)"
  have "\<bar>x\<bar> * 10 < rat_of_int 10000000" using assms by simp
  then have fl: "\<lfloor>\<bar>x\<bar> * 10\<rfloor> < 10000000" by (simp only: floor_less_iff)
  have "n \<le> \<lfloor>\<bar>x\<bar> * 10\<rfloor> + 1"
    unfolding n_def using round_half_even_le [of "\<bar>x\<bar> * 10"] by simp
  with fl have "n \<le> 10000000" by linarith
  then have "n div 10 < 10 ^ 7" by simp
  then have a: "length (dec (n div 10 ^ 1)) \<le> 7"
    using length_dec [of "n div 10" 7] by simp
  have b: "length (dec (n mod 10 ^ 1)) = 1"
    by (rule length_dec_digit) simp
  show ?thesis
    unfolding fmt_f_def Let_def n_def [symmetric] length_zero_pad
    using a b by simp
qed

lemma length_fmt_d_2:
  assumes "0 \<le> n" "n < 2 ^ 31"
  shows "length (fmt_d 2 n) \<le> 10"
proof -
  have "\<bar>n\<bar> < 10 ^ 10" using assms by simp
  then have "length (dec \<bar>n\<bar>) \<le> 10" by (rule length_dec) simp
  then show ?thesis
    using assms(1) by (simp add: fmt_d_def length_zero_pad)
qed

lemma length_snprintf: "length (snprintf n s) \<le> n - 1"
  by (simp add: snprintf_def)

lemma length_timeStr: "length (timeStr gps) \<le> 11"
proof (cases "time_isValid gps")
  case True
  then show ?thesis
    unfolding timeStr_def using length_snprintf [of 12] by (simp del: take_append)
next
  case False
  then show ?thesis by (simp add: timeStr_def)
qed

lemma length_latStr: "length (latStr gps) \<le> 14"
proof (cases "location_isValid gps")
  case True
  then show ?thesis
    unfolding latStr_def Let_def using length_snprintf [of 15] by (simp del: take_append)
next
  case False
  then show ?thesis by (simp add: latStr_def)
qed

lemma length_lonStr: "length (lonStr gps) \<le> 14"
proof (cases "location_isValid gps")
  case True
  then show ?thesis
    unfolding lonStr_def Let_def using length_snprintf [of 15] by (simp del: take_append)
next
  case False
  then show ?thesis by (simp add: lonStr_def)
qed

lemma fmt_d_fixQuality: "fmt_d 0 (fixQuality gps) = (if location_isValid gps then ''1'' else ''0'')"
proof -
  have "fmt_d 0 1 = ''1''" "fmt_d 0 0 = ''0''" by code_simp+
  then show ?thesis by (simp add: fixQuality_def)
qed

lemma numSats_less: "numSats gps < 2 ^ 31"
  using sint_lt [of "satellites_value gps"] by (simp add: numSats_def)

lemma plausible_fits:
  assumes "plausible gps"
  shows "fits_buffer gps"
proof -
  have "length (fmt_d 2 (numSats gps)) \<le> 10"
    using assms numSats_less [of gps] by (intro length_fmt_d_2) (simp_all add: plausible_def)
  moreover have "length (fmt_f 0 1 (hdop gps)) \<le> 10" "length (fmt_f 0 1 (altitude gps)) \<le> 10"
    using assms by (simp_all add: plausible_def length_fmt_f_1 del: One_nat_def)
  moreover note length_timeStr [of gps] length_latStr [of gps] length_lonStr [of gps]
  ultimately show ?thesis
    by (simp add: fits_buffer_def gga_format_def fmt_d_fixQuality del: One_nat_def)
qed

section \<open>The checksum of the position sentence\<close>

lemma plausible_sample_fix: "plausible sample_fix"
  by code_simp

text \<open>
  A sentence that fits its buffer validates. Outside the data model the buffer can be one
  byte short: with a negative HDOP beside coordinates of 10000.5 degrees, 2147483648
  satellites and an altitude of -21474836.48 the expansion has 100 characters, the buffer
  keeps 99, and what is sent has lost its \<open>*\<close>.
\<close>

lemma checksum_valid_fits:
  assumes "fits_buffer gps"
  shows "checksum_validates (generateGGA gps)"
proof -
  have "\<forall>c \<in> set (gga_payload gps). c \<noteq> CHR ''*''"
    using payload_plain [of gps] by blast
  then show ?thesis
    unfolding generateGGA_fits [OF assms] by (rule validates_framed)
qed

lemma sentence_cut_outside_data_model:
  "length (gga_format widest_fix) = 100 \<and>
   generateGGA widest_fix =
     ''$GPGGA,000000.000,1000030.000000,N,1000030.000000,W,1,-2147483648,-21474836.0,-21474836.0,M,0.0,M,,66'' @ CRLF \<and>
   \<not> checksum_validates (generateGGA widest_fix)"
  by code_simp

section \<open>The fields of the position sentence\<close>

lemma fields_of_comma:
  "CHR '','' \<notin> set f \<Longrightarrow> fields_of (f @ CHR '','' # rest) = f # fields_of rest"
  by (induction f) auto

lemma fields_of_single: "CHR '','' \<notin> set f \<Longrightarrow> fields_of f = [f]"
  by (induction f) auto

lemma no_comma:
  "CHR '','' \<notin> set (timeStr gps)" "CHR '','' \<notin> set (latStr gps)"
  "CHR '','' \<notin> set (lonStr gps)" "CHR '','' \<notin> set (fmt_d w n)"
  "CHR '','' \<notin> set (fmt_f w p x)"
  using numeric_plain [OF numeric_timeStr] numeric_plain [OF numeric_latStr]
    numeric_plain [OF numeric_lonStr] numeric_plain [OF numeric_fmt_d]
    numeric_plain [OF numeric_fmt_f]
  by blast+

lemma dir_no_comma: "latDir gps \<noteq> CHR '',''" "lonDir gps \<noteq> CHR '',''"
  using latDir_cases [of gps] lonDir_cases [of gps] by auto

lemma fields_of_head:
  "fields_of (gga_head gps @ rest) =
   ''$GPGGA'' # timeStr gps # latStr gps # [latDir gps] # lonStr gps # [lonDir gps] #
   fmt_d 0 (fixQuality gps) # fields_of rest"
  by (simp add: gga_head_def fields_of_comma no_comma dir_no_comma)

lemma fields_of_tail:
  assumes "CHR '','' \<notin> set last_field"
  shows "fields_of (fmt_d 2 (numSats gps) @ '','' @ fmt_f 0 1 (hdop gps) @ '','' @
                    fmt_f 0 1 (altitude gps) @ '',M,0.0,M,,'' @ last_field) =
         [fmt_d 2 (numSats gps), fmt_f 0 1 (hdop gps), fmt_f 0 1 (altitude gps),
          ''M'', ''0.0'', ''M'', [], last_field]"
  using assms by (simp add: fields_of_comma no_comma fields_of_single del: One_nat_def)

lemma gga_format_head: "gga_format gps = gga_head gps @ gga_tail gps"
  by (simp add: gga_format_def gga_head_def gga_tail_def)

lemma length_gga_head: "length (gga_head gps) \<le> 55"
  using length_timeStr [of gps] length_latStr [of gps] length_lonStr [of gps]
  by (simp add: gga_head_def fmt_d_fixQuality)

lemma gga_head_no_star: "CHR ''*'' \<notin> set (gga_head gps)"
proof -
  note f = numeric_plain [OF numeric_timeStr] numeric_plain [OF numeric_latStr]
    numeric_plain [OF numeric_lonStr] numeric_plain [OF numeric_fmt_d]
  show ?thesis
    using latDir_cases [of gps] lonDir_cases [of gps]
    by (auto simp: gga_head_def dest: f)
qed

lemma generateGGA_head: "\<exists>rest. generateGGA gps = gga_head gps @ rest"
proof -
  let ?h = "gga_head gps"
  have len: "length ?h \<le> 55" by (rule length_gga_head)
  then have s: "snprintf 100 (gga_format gps) = ?h @ take (99 - length ?h) (gga_tail gps)"
    by (simp add: snprintf_def gga_format_head)
  define t where "t = take (99 - length ?h) (gga_tail gps)"
  define cs where "cs = calcNmeaChecksum (?h @ t)"
  have r: "snprintf 110 ((?h @ t) @ fmt_02X cs @ CRLF) =
      ?h @ take (109 - length ?h) (t @ fmt_02X cs @ CRLF)"
    using len by (simp add: snprintf_def)
  have "generateGGA gps =
      String_replace ''**'' ''*'' (?h @ take (109 - length ?h) (t @ fmt_02X cs @ CRLF))"
    unfolding generateGGA_def Let_def s t_def [symmetric] cs_def [symmetric] r ..
  also have "\<dots> = ?h @ String_replace ''**'' ''*'' (take (109 - length ?h) (t @ fmt_02X cs @ CRLF))"
    using gga_head_no_star by (rule replace_prefix)
  finally show ?thesis by blast
qed

lemma fields_generateGGA_head:
  "take 7 (fields_of (generateGGA gps)) =
   [''$GPGGA'', timeStr gps, latStr gps, [latDir gps], lonStr gps, [lonDir gps],
    fmt_d 0 (fixQuality gps)]"
proof -
  obtain rest where "generateGGA gps = gga_head gps @ rest"
    using generateGGA_head by blast
  then show ?thesis by (simp add: fields_of_head)
qed

lemma fields_generateGGA_fits:
  assumes "fits_buffer gps"
  shows "fields_of (generateGGA gps) =
         [''$GPGGA'', timeStr gps, latStr gps, [latDir gps], lonStr gps, [lonDir gps],
          fmt_d 0 (fixQuality gps), fmt_d 2 (numSats gps), fmt_f 0 1 (hdop gps),
          fmt_f 0 1 (altitude gps), ''M'', ''0.0'', ''M'', [],
          CHR ''*'' # fmt_02X (spec_xor (gga_payload gps)) @ CRLF]"
proof -
  let ?last = "CHR ''*'' # fmt_02X (spec_xor (gga_payload gps)) @ CRLF"
  have c: "CHR '','' \<notin> set ?last"
    using fmt_02X_plain [of "spec_xor (gga_payload gps)"] by (simp add: CRLF_def)
  have "generateGGA gps =
      gga_head gps @ (fmt_d 2 (numSats gps) @ '','' @ fmt_f 0 1 (hdop gps) @ '','' @
                      fmt_f 0 1 (altitude gps) @ '',M,0.0,M,,'' @ ?last)"
    unfolding generateGGA_fits [OF assms]
    by (simp add: gga_payload_def gga_head_def del: One_nat_def)
  then show ?thesis
    by (simp only: fields_of_head fields_of_tail [OF c])
qed

lemma fmt_02X_calc:
  assumes "fits_buffer gps"
  shows "calcNmeaChecksum (snprintf 100 (gga_format gps)) = spec_xor (gga_payload gps)"
proof -
  have "length (CHR ''$'' # gga_payload gps @ ''*'') \<le> 99"
    using assms by (simp add: fits_buffer_def gga_format_payload)
  then have "snprintf 100 (gga_format gps) = CHR ''$'' # gga_payload gps @ ''*''"
    by (simp add: snprintf_def gga_format_payload)
  then show ?thesis
    using checksum_loop_fold [OF payload_plain, of gps "[]" 0]
    by (simp add: calcNmeaChecksum_def spec_xor_def)
qed

text \<open>
  Claim C3, as stated, at the snapshot without any valid field: of the two geoid fields
  that follow the altitude and its unit, the first is \<open>0.0\<close> and the second is \<open>M\<close>; neither
  is empty.
\<close>

theorem geoid_fields_not_empty:
  "fields_of (generateGGA no_fix) ! 11 = ''0.0'' \<and> fields_of (generateGGA no_fix) ! 12 = ''M'' \<and>
   fields_of (generateGGA no_fix) ! 11 \<noteq> [] \<and> fields_of (generateGGA no_fix) ! 12 \<noteq> []"
  by code_simp

text \<open>
  Claim C3, amended. For every snapshot whose expanded sentence fits the buffer, the
  sentence has fifteen pieces between commas; after the altitude come its unit \<open>M\<close>, the
  geoid separation \<open>0.0\<close> with its unit \<open>M\<close>, an empty differential-age field, and an empty
  station field closed by the \<open>*\<close>, the two digits of the checksum and CR LF.
\<close>

theorem trailing_fields:
  assumes "fits_buffer gps"
  shows "length (fields_of (generateGGA gps)) = 15 \<and>
         drop 9 (fields_of (generateGGA gps)) =
           [fmt_f 0 1 (altitude gps), ''M'', ''0.0'', ''M'', [],
            CHR ''*'' # fmt_02X (calcNmeaChecksum (snprintf 100 (gga_format gps))) @ CRLF]"
  by (simp add: fields_generateGGA_fits [OF assms] fmt_02X_calc [OF assms] del: One_nat_def)

theorem trailing_fields_witness:
  "fits_buffer sample_fix \<and>
   drop 9 (fields_of (generateGGA sample_fix)) =
     [''545.4'', ''M'', ''0.0'', ''M'', [], ''*75'' @ CRLF]"
proof -
  have h: "fits_buffer sample_fix"
    using plausible_sample_fix by (rule plausible_fits)
  have a: "fmt_f 0 1 (altitude sample_fix) = ''545.4''"
    by code_simp
  have c: "fmt_02X (calcNmeaChecksum (snprintf 100 (gga_format sample_fix))) = ''75''"
    by code_simp
  from h trailing_fields [OF h] show ?thesis
    by (simp add: a c del: One_nat_def)
qed

text \<open>
  Claim C9. The fix-quality field of the sentence is \<open>1\<close> when the location is valid and
  \<open>0\<close> when it is not, for every snapshot; the classification reported by the sensor is
  not read, so changing it leaves the sentence as it is.
\<close>

theorem fix_quality_field:
  "fields_of (generateGGA gps) ! 6 = (if location_isValid gps then ''1'' else ''0'') \<and>
   generateGGA (gps\<lparr>location_FixQuality := q\<rparr>) = generateGGA gps"
proof -
  have "fields_of (generateGGA gps) ! 6 = take 7 (fields_of (generateGGA gps)) ! 6"
    by simp
  then have "fields_of (generateGGA gps) ! 6 = fmt_d 0 (fixQuality gps)"
    by (simp only: fields_generateGGA_head) simp
  moreover have "generateGGA (gps\<lparr>location_FixQuality := q\<rparr>) = generateGGA gps"
    by (simp add: generateGGA_def gga_format_def timeStr_def latStr_def latDir_def lonStr_def
        lonDir_def fixQuality_def numSats_def hdop_def altitude_def)
  ultimately show ?thesis
    by (simp add: fmt_d_fixQuality)
qed

theorem fix_quality_field_witness:
  "location_FixQuality sample_fix = QDGPS \<and> fields_of (generateGGA sample_fix) ! 6 = ''1'' \<and>
   fields_of (generateGGA no_fix) ! 6 = ''0'' \<and>
   generateGGA (sample_fix\<lparr>location_FixQuality := QRTK\<rparr>) = generateGGA sample_fix"
proof -
  have "location_isValid sample_fix" "\<not> location_isValid no_fix"
    "location_FixQuality sample_fix = QDGPS"
    by (simp_all add: sample_fix_def no_fix_def)
  then show ?thesis
    using fix_quality_field [of sample_fix QRTK] fix_quality_field [of no_fix QRTK] by simp
qed

section \<open>Rounding is monotone\<close>

lemma pow2_powi: "pow2 k = 2 powi k"
  by (simp add: pow2_def power_int_def power_inverse field_simps)

lemma pow2_pos [simp]: "0 < pow2 k"
  by (simp add: pow2_powi)

lemma pow2_add: "pow2 (a + b) = pow2 a * pow2 b"
  by (simp add: pow2_powi power_int_add)

lemma pow2_mono: "a \<le> b \<Longrightarrow> pow2 a \<le> pow2 b"
  by (simp add: pow2_powi power_int_increasing)

lemma pow2_nat: "pow2 (int n) = 2 ^ n"
  by (simp add: pow2_def)

lemma ilog2_bounds:
  assumes "0 < x"
  shows "pow2 (ilog2 x) \<le> x \<and> x < pow2 (ilog2 x + 1)"
proof -
  obtain p q where pq: "quotient_of x = (p, q)" by (cases "quotient_of x")
  then have q: "0 < q" and x: "x = of_int p / of_int q"
    by (simp_all add: quotient_of_denom_pos quotient_of_div)
  from assms x q have p: "0 < p"
    by (simp add: zero_less_divide_iff)
  define a where "a = bitlen p"
  define b where "b = bitlen q"
  have a1: "1 \<le> a" and b1: "1 \<le> b"
    using p q by (simp_all add: a_def b_def bitlen_alt_def)
  from bitlen_bounds [OF p] have pa: "2 ^ nat (a - 1) \<le> p" "p < 2 ^ nat a"
    by (simp_all add: a_def)
  from bitlen_bounds [OF q] have qb: "2 ^ nat (b - 1) \<le> q" "q < 2 ^ nat b"
    by (simp_all add: b_def)
  have ra: "pow2 (a - 1) \<le> of_int p" "of_int p < pow2 a"
  proof -
    have "rat_of_int (2 ^ nat (a - 1)) \<le> of_int p" using pa(1) by (simp only: of_int_le_iff)
    then show "pow2 (a - 1) \<le> of_int p" using a1 by (simp add: pow2_def)
    have "rat_of_int p < of_int (2 ^ nat a)" using pa(2) by (simp only: of_int_less_iff)
    then show "of_int p < pow2 a" using a1 by (simp add: pow2_def)
  qed
  have rb: "pow2 (b - 1) \<le> of_int q" "of_int q < pow2 b"
  proof -
    have "rat_of_int (2 ^ nat (b - 1)) \<le> of_int q" using qb(1) by (simp only: of_int_le_iff)
    then show "pow2 (b - 1) \<le> of_int q" using b1 by (simp add: pow2_def)
    have "rat_of_int q < of_int (2 ^ nat b)" using qb(2) by (simp only: of_int_less_iff)
    then show "of_int q < pow2 b" using b1 by (simp add: pow2_def)
  qed
  have q': "0 < rat_of_int q" using q by simp
  have lo: "pow2 (a - b - 1) < x"
  proof -
    have "pow2 (a - b - 1) * pow2 b = pow2 (a - 1)"
      by (simp add: pow2_add [symmetric])
    moreover have "pow2 (a - b - 1) * of_int q < pow2 (a - b - 1) * pow2 b"
      using rb(2) pow2_pos [of "a - b - 1"] by (rule mult_strict_left_mono)
    ultimately have "pow2 (a - b - 1) * of_int q < pow2 (a - 1)"
      by simp
    also have "\<dots> \<le> of_int p"
      by (rule ra(1))
    finally show ?thesis
      using q' by (simp add: x pos_less_divide_eq)
  qed
  have hi: "x < pow2 (a - b + 1)"
  proof -
    have e: "pow2 (a - b + 1) * pow2 (b - 1) = pow2 a"
      by (simp add: pow2_add [symmetric])
    have "of_int p < pow2 a" by (rule ra(2))
    also have "\<dots> \<le> pow2 (a - b + 1) * of_int q"
      unfolding e [symmetric] using rb(1) by (simp add: mult_left_mono less_imp_le)
    finally show ?thesis
      using q' by (simp add: x pos_divide_less_eq)
  qed
  have il: "ilog2 x = (if x < pow2 (a - b) then a - b - 1 else a - b)"
    by (simp add: ilog2_def pq a_def b_def Let_def)
  show ?thesis
  proof (cases "x < pow2 (a - b)")
    case True
    then show ?thesis using lo by (simp add: il less_imp_le)
  next
    case False
    then show ?thesis using hi by (simp add: il)
  qed
qed

lemma ilog2_mono:
  assumes "0 < x" "x \<le> y"
  shows "ilog2 x \<le> ilog2 y"
proof (rule ccontr)
  assume "\<not> ilog2 x \<le> ilog2 y"
  then have "ilog2 y + 1 \<le> ilog2 x" by simp
  then have "pow2 (ilog2 y + 1) \<le> pow2 (ilog2 x)" by (rule pow2_mono)
  also have "\<dots> \<le> x" using ilog2_bounds [OF assms(1)] by simp
  also have "\<dots> \<le> y" by (rule assms(2))
  finally show False
    using ilog2_bounds [of y] assms by simp
qed

lemma round_half_even_mono:
  assumes "x \<le> y"
  shows "round_half_even x \<le> round_half_even y"
proof (cases "\<lfloor>x\<rfloor> = \<lfloor>y\<rfloor>")
  case True
  then have "x - of_int \<lfloor>x\<rfloor> \<le> y - of_int \<lfloor>y\<rfloor>" using assms by simp
  then show ?thesis
    using True by (auto simp: round_half_even_def Let_def)
next
  case False
  then have "\<lfloor>x\<rfloor> < \<lfloor>y\<rfloor>"
    using floor_mono [OF assms] by simp
  then have "round_half_even x \<le> \<lfloor>y\<rfloor>"
    using round_half_even_le [of x] by simp
  then show ?thesis
    using round_half_even_ge [of y] by simp
qed

lemma round_half_even_of_int [simp]: "round_half_even (of_int k) = k"
  by (simp add: round_half_even_def)

lemma round_to_prec_bounds:
  assumes "0 < x" "0 < p"
  shows "pow2 (ilog2 x) \<le> round_to_prec p x \<and> round_to_prec p x \<le> pow2 (ilog2 x + 1)"
proof -
  define u where "u = pow2 (ilog2 x - int p + 1)"
  have u: "0 < u" by (simp add: u_def)
  have lo: "u * of_int (2 ^ (p - 1)) = pow2 (ilog2 x)"
  proof -
    have "pow2 (ilog2 x - int p + 1) * pow2 (int (p - 1)) = pow2 (ilog2 x)"
      using assms(2) by (simp add: pow2_add [symmetric] of_nat_diff)
    then show ?thesis by (simp add: u_def pow2_nat)
  qed
  have hi: "u * of_int (2 ^ p) = pow2 (ilog2 x + 1)"
  proof -
    have "pow2 (ilog2 x - int p + 1) * pow2 (int p) = pow2 (ilog2 x + 1)"
      by (simp add: pow2_add [symmetric])
    then show ?thesis by (simp add: u_def pow2_nat)
  qed
  have r: "round_to_prec p x = of_int (round_half_even (x / u)) * u"
    using assms(1) by (simp add: round_to_prec_def u_def Let_def)
  have "of_int (2 ^ (p - 1)) \<le> x / u"
    using ilog2_bounds [OF assms(1)] u lo by (simp add: pos_le_divide_eq mult.commute)
  then have "round_half_even (of_int (2 ^ (p - 1))) \<le> round_half_even (x / u)"
    by (rule round_half_even_mono)
  then have "rat_of_int (2 ^ (p - 1)) \<le> of_int (round_half_even (x / u))"
    by (simp only: round_half_even_of_int of_int_le_iff)
  then have a: "pow2 (ilog2 x) \<le> round_to_prec p x"
    unfolding r lo [symmetric] using u by (simp add: mult.commute)
  have "x / u \<le> of_int (2 ^ p)"
    using ilog2_bounds [OF assms(1)] u hi by (simp add: pos_divide_le_eq mult.commute)
  then have "round_half_even (x / u) \<le> round_half_even (of_int (2 ^ p))"
    by (rule round_half_even_mono)
  then have "rat_of_int (round_half_even (x / u)) \<le> of_int (2 ^ p)"
    by (simp only: round_half_even_of_int of_int_le_iff)
  then have b: "round_to_prec p x \<le> pow2 (ilog2 x + 1)"
    unfolding r hi [symmetric] using u by (simp add: mult.commute)
  from a b show ?thesis ..
qed

lemma round_to_prec_mono:
  assumes "0 \<le> x" "x \<le> y" "0 < p"
  shows "round_to_prec p x \<le> round_to_prec p y"
proof (cases "x = 0")
  case True
  show ?thesis
  proof (cases "y = 0")
    case True
    with \<open>x = 0\<close> show ?thesis by simp
  next
    case False
    then have "0 < y" using assms by simp
    then have "0 < round_to_prec p y"
      using round_to_prec_bounds [of y p] assms(3) pow2_pos [of "ilog2 y"] by linarith
    then show ?thesis using \<open>x = 0\<close> by (simp add: round_to_prec_def)
  qed
next
  case False
  then have x: "0 < x" and y: "0 < y" using assms by simp_all
  have e: "ilog2 x \<le> ilog2 y" using x assms(2) by (rule ilog2_mono)
  show ?thesis
  proof (cases "ilog2 x = ilog2 y")
    case True
    define u where "u = pow2 (ilog2 y - int p + 1)"
    have u: "0 < u" by (simp add: u_def)
    have "x / u \<le> y / u" using assms(2) u by (simp add: divide_right_mono)
    then have "round_half_even (x / u) \<le> round_half_even (y / u)"
      by (rule round_half_even_mono)
    then have "rat_of_int (round_half_even (x / u)) * u \<le> of_int (round_half_even (y / u)) * u"
      using u by (simp add: mult_right_mono)
    then show ?thesis
      using x y True by (simp add: round_to_prec_def u_def Let_def)
  next
    case False
    then have "ilog2 x + 1 \<le> ilog2 y" using e by simp
    then have "pow2 (ilog2 x + 1) \<le> pow2 (ilog2 y)" by (rule pow2_mono)
    then show ?thesis
      using round_to_prec_bounds [OF x assms(3)] round_to_prec_bounds [OF y assms(3)]
      by linarith
  qed
qed

lemma round_to_prec_nonneg: "0 \<le> x \<Longrightarrow> 0 < p \<Longrightarrow> 0 \<le> round_to_prec p x"
  using round_to_prec_mono [of 0 x p] by (simp add: round_to_prec_def)


lemma to_float_mono: "0 \<le> x \<Longrightarrow> x \<le> y \<Longrightarrow> to_float x \<le> to_float y"
  by (simp add: to_float_def round_to_prec_mono)


lemma to_float_nonneg: "0 \<le> x \<Longrightarrow> 0 \<le> to_float x"
  by (simp add: to_float_def round_to_prec_nonneg)


lemma round_half_even_minus: "round_half_even (- x) = - round_half_even x"
proof (cases "x = of_int \<lfloor>x\<rfloor>")
  case True
  then obtain k where "x = of_int k" by blast
  then have "round_half_even (- x) = round_half_even (of_int (- k))" by simp
  then show ?thesis using \<open>x = of_int k\<close> by (simp only: round_half_even_of_int)
next
  case False
  define f where "f = \<lfloor>x\<rfloor>"
  define d where "d = x - of_int f"
  have d: "0 < d" "d < 1"
    using False by (simp_all add: d_def f_def less_le) linarith
  have fm: "\<lfloor>- x\<rfloor> = - f - 1"
    using d by (intro floor_unique) (simp_all add: d_def)
  have dm: "- x - of_int (- f - 1) = 1 - d"
    by (simp add: d_def)
  have "round_half_even (- x) =
      (if 1 - d < 1 / 2 then - f - 1 else if 1 / 2 < 1 - d then - f
       else if even (- f - 1) then - f - 1 else - f)"
    unfolding round_half_even_def Let_def fm dm by simp
  moreover have "round_half_even x =
      (if d < 1 / 2 then f else if 1 / 2 < d then f + 1 else if even f then f else f + 1)"
    unfolding round_half_even_def Let_def f_def [symmetric] d_def [symmetric] by simp
  ultimately show ?thesis
    by auto
qed

lemma round_to_prec_minus: "round_to_prec p (- x) = - round_to_prec p x"
  by (simp add: round_to_prec_def Let_def round_half_even_minus)

lemma round_to_prec_abs_le:
  assumes "\<bar>x\<bar> \<le> b" "0 < p"
  shows "\<bar>round_to_prec p x\<bar> \<le> round_to_prec p b"
proof (cases "0 \<le> x")
  case True
  then have "round_to_prec p x \<le> round_to_prec p b" "0 \<le> round_to_prec p x"
    using assms by (simp_all add: round_to_prec_mono round_to_prec_nonneg)
  then show ?thesis by simp
next
  case False
  then have "0 \<le> - x" "- x \<le> b" using assms by simp_all
  then have "round_to_prec p (- x) \<le> round_to_prec p b" "0 \<le> round_to_prec p (- x)"
    using assms(2) by (simp_all add: round_to_prec_mono round_to_prec_nonneg)
  then show ?thesis by (simp add: round_to_prec_minus)
qed

lemma to_float_abs_le: "\<bar>x\<bar> \<le> b \<Longrightarrow> \<bar>to_float x\<bar> \<le> to_float b"
  by (simp add: to_float_def round_to_prec_abs_le)

section \<open>The sentence of a snapshot of the data model fits its buffer\<close>

lemma length_fmt_d_digits:
  assumes "0 \<le> n" "n < 10 ^ w" "0 < w"
  shows "length (fmt_d w n) = w"
proof -
  have "length (dec \<bar>n\<bar>) \<le> w"
    using assms by (intro length_dec) simp_all
  then show ?thesis
    using assms(1) by (simp add: fmt_d_def length_zero_pad)
qed

lemma length_timeStr_data_model:
  assumes "in_data_model gps"
  shows "length (timeStr gps) \<le> 10"
proof (cases "time_isValid gps")
  case True
  then have b: "time_hour gps < 100" "time_minute gps < 100" "time_second gps < 100"
    "time_centisecond gps < 100"
    using assms by (simp_all add: in_data_model_def)
  have u: "uint (time_hour gps) < 100" "uint (time_minute gps) < 100"
    "uint (time_second gps) < 100" "uint (time_centisecond gps) < 100"
    using b by (simp_all add: word_less_def)
  have "length (fmt_d 2 (uint (time_hour gps))) = 2"
    "length (fmt_d 2 (uint (time_minute gps))) = 2"
    "length (fmt_d 2 (uint (time_second gps))) = 2"
    "length (fmt_d 3 (uint (time_centisecond gps) * 10)) = 3"
    using u by (simp_all add: length_fmt_d_digits)
  then show ?thesis
    using True by (simp add: timeStr_def snprintf_def)
next
  case False
  then show ?thesis by (simp add: timeStr_def)
qed

lemma length_fmt_d_2_int:
  assumes "- (2 ^ 31) \<le> n" "n < 2 ^ 31"
  shows "length (fmt_d 2 n) \<le> 11"
proof -
  have "\<bar>n\<bar> < 10 ^ 10" using assms by simp
  then have "length (dec \<bar>n\<bar>) \<le> 10" by (rule length_dec) simp
  then show ?thesis
    by (cases "n < 0") (simp_all add: fmt_d_def length_zero_pad)
qed

lemma length_numSats: "length (fmt_d 2 (numSats gps)) \<le> 11"
proof -
  have "- (2 ^ 31) \<le> numSats gps" "numSats gps < 2 ^ 31"
    using sint_ge [of "satellites_value gps"] sint_lt [of "satellites_value gps"]
    by (simp_all add: numSats_def)
  then show ?thesis by (rule length_fmt_d_2_int)
qed

lemma length_fmt_f_1_digits:
  assumes "\<bar>x\<bar> \<le> 21474836"
  shows "length (fmt_f 0 1 x) \<le> (if x < 0 then 11 else 10)"
proof -
  define n where "n = round_half_even (\<bar>x\<bar> * 10 ^ 1)"
  have "\<bar>x\<bar> * 10 ^ 1 \<le> rat_of_int 214748360" using assms by simp
  then have "n \<le> round_half_even (rat_of_int 214748360)"
    unfolding n_def by (rule round_half_even_mono)
  then have "n \<le> 214748360"
    by (simp only: round_half_even_of_int)
  then have "n div 10 < 10 ^ 8" by simp
  then have a: "length (dec (n div 10 ^ 1)) \<le> 8"
    using length_dec [of "n div 10" 8] by simp
  have b: "length (dec (n mod 10 ^ 1)) = 1"
    by (rule length_dec_digit) simp
  show ?thesis
    unfolding fmt_f_def Let_def n_def [symmetric] length_zero_pad
    using a b by simp
qed

lemma float_of_widest:
  "to_float (2147483647 / 100) = 21474836" "to_float (2147483648 / 100) = 21474836"
  by code_simp+

lemma length_hdop_data_model:
  assumes "in_data_model gps"
  shows "length (fmt_f 0 1 (hdop gps)) \<le> 10"
proof (cases "hdop_isValid gps")
  case True
  then have d: "0 \<le> hdop_hdop gps" "hdop_hdop gps \<le> 2147483647 / 100"
    using assms by (simp_all add: in_data_model_def)
  have "0 \<le> to_float (hdop_hdop gps)"
    using d(1) by (rule to_float_nonneg)
  moreover have "to_float (hdop_hdop gps) \<le> 21474836"
    using to_float_mono [OF d] by (simp only: float_of_widest)
  ultimately have "length (fmt_f 0 1 (to_float (hdop_hdop gps))) \<le> 10"
    using length_fmt_f_1_digits [of "to_float (hdop_hdop gps)"] by simp
  then show ?thesis
    using True by (simp add: hdop_def del: One_nat_def)
next
  case False
  then show ?thesis
    by (simp add: hdop_def fmt_default_hdop del: One_nat_def)
qed

lemma length_altitude_data_model:
  assumes "in_data_model gps"
  shows "length (fmt_f 0 1 (altitude gps)) \<le> 11"
proof (cases "altitude_isValid gps")
  case True
  then have "\<bar>altitude_meters gps\<bar> \<le> 2147483648 / 100"
    using assms by (simp add: in_data_model_def)
  then have "\<bar>to_float (altitude_meters gps)\<bar> \<le> 21474836"
    using to_float_abs_le [of "altitude_meters gps" "2147483648 / 100"]
    by (simp only: float_of_widest)
  then have "length (fmt_f 0 1 (to_float (altitude_meters gps))) \<le> 11"
    using length_fmt_f_1_digits [of "to_float (altitude_meters gps)"]
    by (simp split: if_splits del: One_nat_def)
  then show ?thesis
    using True by (simp add: altitude_def del: One_nat_def)
next
  case False
  then show ?thesis
    by (simp add: altitude_def fmt_default_altitude del: One_nat_def)
qed

lemma data_model_fits:
  assumes "in_data_model gps"
  shows "fits_buffer gps"
proof -
  note length_timeStr_data_model [OF assms] length_latStr [of gps] length_lonStr [of gps]
    length_numSats [of gps] length_hdop_data_model [OF assms]
    length_altitude_data_model [OF assms]
  then show ?thesis
    by (simp add: fits_buffer_def gga_format_def fmt_d_fixQuality del: One_nat_def)
qed

lemma sample_fix_in_data_model: "in_data_model sample_fix"
  by code_simp

text \<open>
  Claim C1. For every snapshot of the data model the sentence produced by \<open>generateGGA\<close>
  reads \<open>$\<close>, payload, \<open>*\<close>, two upper-case hexadecimal digits, CR LF, and the two digits are
  the exclusive or of the bytes of the payload: recomputing the checksum over the bytes
  strictly between the \<open>$\<close> and the \<open>*\<close> gives the value appended after the \<open>*\<close>. The data
  model asks of a valid field no more than the specification and the types of the accessors
  do: hour, minute, second and centisecond below 100, latitude and longitude that the cast
  to \<^verbatim>\<open>int\<close> can truncate, an HDOP from 0 to 21474836.47 and an altitude up to 21474836.48
  in magnitude; the satellite count is any 32-bit value.
\<close>

theorem checksum_valid_in_data_model:
  assumes "in_data_model gps"
  shows "checksum_validates (generateGGA gps)"
proof -
  have "fits_buffer gps"
    using assms by (rule data_model_fits)
  then have "generateGGA gps =
      CHR ''$'' # gga_payload gps @ CHR ''*'' # fmt_02X (spec_xor (gga_payload gps)) @ CRLF"
    by (rule generateGGA_fits)
  moreover have "\<forall>c \<in> set (gga_payload gps). c \<noteq> CHR ''*''"
    using payload_plain [of gps] by blast
  ultimately show ?thesis
    by (simp only: validates_framed)
qed

theorem checksum_valid_in_data_model_witness:
  "in_data_model sample_fix \<and> checksum_validates (generateGGA sample_fix) \<and>
   generateGGA sample_fix =
     ''$GPGGA,123519.050,3725.320000,N,12205.040000,W,1,08,0.9,545.4,M,0.0,M,,*75'' @ CRLF"
proof -
  have h: "in_data_model sample_fix"
    by (rule sample_fix_in_data_model)
  have s: "generateGGA sample_fix =
      ''$GPGGA,123519.050,3725.320000,N,12205.040000,W,1,08,0.9,545.4,M,0.0,M,,*75'' @ CRLF"
    by code_simp
  from h checksum_valid_in_data_model [OF h] s show ?thesis
    by blast
qed

section \<open>Latitude and longitude in degrees and minutes\<close>

lemma latStr_valid: "location_isValid gps \<Longrightarrow> latStr gps = nmea_degrees 2 (location_lat gps)"
  by (simp add: latStr_def nmea_degrees_def)

lemma lonStr_valid: "location_isValid gps \<Longrightarrow> lonStr gps = nmea_degrees 3 (location_lng gps)"
  by (simp add: lonStr_def nmea_degrees_def)

lemma nmea_degrees_abs: "nmea_degrees w (- x) = nmea_degrees w x"
  by (simp add: nmea_degrees_def)

lemma latitude_sample: "nmea_degrees 2 (to_double (37422 / 1000)) = ''3725.320000''"
  by code_simp

lemma latitude_sample_sign: "0 \<le> to_double (37422 / 1000)" "\<not> 0 \<le> - to_double (37422 / 1000)"
  by code_simp+

lemma fields_lat:
  "fields_of (generateGGA gps) ! 2 = latStr gps \<and> fields_of (generateGGA gps) ! 3 = [latDir gps]"
proof -
  have "fields_of (generateGGA gps) ! 2 = take 7 (fields_of (generateGGA gps)) ! 2"
    "fields_of (generateGGA gps) ! 3 = take 7 (fields_of (generateGGA gps)) ! 3"
    by simp_all
  then show ?thesis
    by (simp only: fields_generateGGA_head) simp
qed

text \<open>
  Claim C4. With a valid location the latitude field is the magnitude of the latitude in
  degrees and minutes and the next field is the hemisphere, \<open>N\<close> unless the latitude is
  negative. For the \<^verbatim>\<open>double\<close> nearest to 37.422 the fields are \<open>3725.320000\<close> and \<open>N\<close>; for
  its negative they are the same digits and \<open>S\<close>.
\<close>

theorem latitude_field:
  assumes "location_isValid gps"
  shows "fields_of (generateGGA gps) ! 2 = nmea_degrees 2 \<bar>location_lat gps\<bar> \<and>
         fields_of (generateGGA gps) ! 3 = (if 0 \<le> location_lat gps then ''N'' else ''S'') \<and>
         (location_lat gps = to_double (37422 / 1000) \<longrightarrow>
            fields_of (generateGGA gps) ! 2 = ''3725.320000'' \<and>
            fields_of (generateGGA gps) ! 3 = ''N'') \<and>
         (location_lat gps = - to_double (37422 / 1000) \<longrightarrow>
            fields_of (generateGGA gps) ! 2 = ''3725.320000'' \<and>
            fields_of (generateGGA gps) ! 3 = ''S'')"
proof -
  have a: "fields_of (generateGGA gps) ! 2 = nmea_degrees 2 (location_lat gps)"
    using fields_lat [of gps] latStr_valid [OF assms] by simp
  have b: "fields_of (generateGGA gps) ! 3 = (if 0 \<le> location_lat gps then ''N'' else ''S'')"
    using fields_lat [of gps] assms by (simp add: latDir_def)
  have c: "nmea_degrees 2 \<bar>location_lat gps\<bar> = nmea_degrees 2 (location_lat gps)"
    by (simp add: nmea_degrees_def)
  show ?thesis
    unfolding a b c
    using latitude_sample latitude_sample_sign by (auto simp: nmea_degrees_abs)
qed

theorem latitude_field_witness:
  "location_isValid sample_fix \<and> location_lat sample_fix = to_double (37422 / 1000) \<and>
   fields_of (generateGGA sample_fix) ! 2 = ''3725.320000'' \<and>
   fields_of (generateGGA sample_fix) ! 3 = ''N'' \<and>
   fields_of (generateGGA (sample_fix\<lparr>location_lat := - to_double (37422 / 1000)\<rparr>)) ! 2 =
     ''3725.320000'' \<and>
   fields_of (generateGGA (sample_fix\<lparr>location_lat := - to_double (37422 / 1000)\<rparr>)) ! 3 = ''S''"
proof -
  let ?south = "sample_fix\<lparr>location_lat := - to_double (37422 / 1000)\<rparr>"
  have h: "location_isValid sample_fix" "location_isValid ?south"
    "location_lat sample_fix = to_double (37422 / 1000)"
    "location_lat ?south = - to_double (37422 / 1000)"
    by (simp_all add: sample_fix_def no_fix_def)
  from latitude_field [OF h(1)] h(3)
  have n: "fields_of (generateGGA sample_fix) ! 2 = ''3725.320000'' \<and>
           fields_of (generateGGA sample_fix) ! 3 = ''N''"
    by blast
  from latitude_field [OF h(2)] h(4)
  have s: "fields_of (generateGGA ?south) ! 2 = ''3725.320000'' \<and>
           fields_of (generateGGA ?south) ! 3 = ''S''"
    by blast
  from h(1) h(3) n s show ?thesis
    by blast
qed

section \<open>The display mode\<close>

lemma next_mode_cycle: "next_mode (next_mode (next_mode m)) = m"
  by (cases m) (simp_all add: next_mode_def DisplayMode_cast_def MODE_COUNT_def)

lemma next_mode_funpow: "3 dvd n \<Longrightarrow> (next_mode ^^ n) m = m"
proof -
  assume "3 dvd n"
  then obtain k where "n = k * 3" by (auto simp: dvd_def)
  moreover have "(next_mode ^^ (k * 3)) m = m"
    by (induction k) (simp_all add: funpow_add next_mode_cycle numeral_3_eq_3)
  ultimately show ?thesis by simp
qed

lemma currentMode_handle_button:
  "currentMode (handle_button i s) =
   (if \<not> wasHold i \<and> wasClicked i then next_mode (currentMode s) else currentMode s)"
  by (simp add: handle_button_def putUChar_def next_mode_def Let_def)

lemma currentMode_relay_position: "currentMode (relay_position i s) = currentMode s"
  by (simp add: relay_position_def sendBleGGA_def notify_def)

lemma currentMode_save_position: "currentMode (save_position i s) = currentMode s"
  by (simp add: save_position_def putDouble_def)

lemma currentMode_loop:
  "currentMode (loop i s) =
   (if wasClicked i \<and> \<not> wasHold i then next_mode (currentMode s) else currentMode s)"
  by (simp add: loop_def currentMode_save_position currentMode_relay_position
      currentMode_handle_button)

lemma currentMode_radio:
  "currentMode (onConnect s) = currentMode s" "currentMode (onDisconnect s) = currentMode s"
  by (simp_all add: onConnect_def onDisconnect_def sendBleDeviceInfo_def notify_def)

lemma currentMode_run:
  "currentMode (run es s) = (next_mode ^^ short_presses es) (currentMode s)"
proof (induction es arbitrary: s)
  case Nil
  show ?case by simp
next
  case (Cons e es)
  show ?case
  proof (cases e)
    case (Loop i)
    then show ?thesis
      by (simp add: Cons.IH currentMode_loop funpow_swap1)
  qed (simp_all add: Cons.IH currentMode_radio)
qed

text \<open>
  Claim C7. From the main view, a run of the sketch whose number of short presses is a
  multiple of three ends in the main view, whatever long presses, idle iterations and
  radio events lie between them; an iteration with a long press leaves the display mode
  as it is and moves the brightness index to the next of the three levels.
\<close>

theorem mode_cycle:
  assumes "currentMode s = MODE_MAIN" and "3 dvd short_presses es"
  shows "currentMode (run es s) = MODE_MAIN \<and>
         (\<forall>i s'. wasHold i \<longrightarrow>
            currentMode (loop i s') = currentMode s' \<and>
            unat (brightnessIndex (loop i s')) = (unat (brightnessIndex s') + 1) mod 3)"
proof -
  have "currentMode (run es s) = MODE_MAIN"
    using assms by (simp add: currentMode_run next_mode_funpow)
  moreover have "unat (brightnessIndex (loop i s')) = (unat (brightnessIndex s') + 1) mod 3"
    if "wasHold i" for i s'
  proof -
    have "brightnessIndex (loop i s') = of_nat ((unat (brightnessIndex s') + 1) mod 3)"
      using that
      by (simp add: loop_def save_position_def relay_position_def sendBleGGA_def notify_def
          putDouble_def handle_button_def putUChar_def Let_def BRIGHTNESS_COUNT_def)
    moreover have "(unat (brightnessIndex s') + 1) mod 3 < 2 ^ LENGTH(8)"
      by (rule less_trans [of _ 3]) simp_all
    ultimately show ?thesis
      by (simp only: of_nat_inverse)
  qed
  ultimately show ?thesis
    by (simp add: currentMode_loop)
qed

theorem mode_cycle_witness:
  "currentMode started = MODE_MAIN \<and>
   3 dvd short_presses [Loop short_press, Loop long_press, Connect, Loop short_press,
                        Loop idle, Loop short_press] \<and>
   currentMode (run [Loop short_press, Loop long_press, Connect, Loop short_press,
                     Loop idle, Loop short_press] started) = MODE_MAIN \<and>
   wasHold long_press \<and> currentMode (loop long_press started) = currentMode started"
proof -
  let ?es = "[Loop short_press, Loop long_press, Connect, Loop short_press,
              Loop idle, Loop short_press]"
  have m: "currentMode started = MODE_MAIN"
    by (simp add: started_def sketch_setup_def initBLE_def load_brightness_def
        load_position_def power_on_def Let_def)
  have d: "3 dvd short_presses ?es"
    by (simp add: short_press_def long_press_def idle_def numeral_3_eq_3 [symmetric])
  have h: "wasHold long_press"
    by (simp add: long_press_def)
  from mode_cycle [OF m d] m d h show ?thesis
    by blast
qed

section \<open>Loading the last position\<close>

lemma hasLastPosition_setup:
  "hasLastPosition (sketch_setup mac4 mac5 s) = hasLastPosition (load_position s)"
  by (simp add: sketch_setup_def initBLE_def load_brightness_def Let_def)

text \<open>
  Claim C10. After startup \<open>hasLastPosition\<close> holds exactly when the key \<open>lat\<close> exists and
  one of the two coordinates read from the store is not zero; a store whose key exists
  with latitude and longitude both 0.0 leaves it false.
\<close>

theorem zero_position_discarded:
  "(hasLastPosition (sketch_setup mac4 mac5 (power_on p)) \<longleftrightarrow>
      isKey p ''lat'' \<and> (getDouble p ''lat'' 0 \<noteq> 0 \<or> getDouble p ''lng'' 0 \<noteq> 0)) \<and>
   (p ''lat'' = Some (NvsDouble 0) \<and> p ''lng'' = Some (NvsDouble 0) \<longrightarrow>
      \<not> hasLastPosition (sketch_setup mac4 mac5 (power_on p)))"
  by (auto simp: hasLastPosition_setup load_position_def power_on_def Let_def isKey_def
      getDouble_def)

theorem zero_position_discarded_witness:
  "zero_position ''lat'' = Some (NvsDouble 0) \<and> zero_position ''lng'' = Some (NvsDouble 0) \<and>
   \<not> hasLastPosition (sketch_setup 0xA1 0xB2 (power_on zero_position)) \<and>
   hasLastPosition
     (sketch_setup 0xA1 0xB2 (power_on (zero_position(''lng'' \<mapsto> NvsDouble (- 122)))))"
proof -
  have z: "zero_position ''lat'' = Some (NvsDouble 0) \<and> zero_position ''lng'' = Some (NvsDouble 0)"
    by (simp add: zero_position_def)
  let ?p = "zero_position(''lng'' \<mapsto> NvsDouble (- 122))"
  have k: "isKey ?p ''lat'' \<and> (getDouble ?p ''lat'' 0 \<noteq> 0 \<or> getDouble ?p ''lng'' 0 \<noteq> 0)"
    by (simp add: zero_position_def isKey_def getDouble_def)
  from zero_position_discarded [of "0xA1" "0xB2" zero_position] z
  have a: "\<not> hasLastPosition (sketch_setup 0xA1 0xB2 (power_on zero_position))"
    by blast
  from zero_position_discarded [of "0xA1" "0xB2" ?p] k
  have b: "hasLastPosition (sketch_setup 0xA1 0xB2 (power_on ?p))"
    by blast
  from z a b show ?thesis by blast
qed

section \<open>The class of the HDOP line\<close>










section \<open>What one iteration does to the radio and to the store\<close>

lemma handle_button_radio:
  "notified (handle_button i s) = notified s"
  "lastBleTransmit (handle_button i s) = lastBleTransmit s"
  "bleConnected (handle_button i s) = bleConnected s"
  "pTxCharacteristic (handle_button i s) = pTxCharacteristic s"
  "lastSaveTime (handle_button i s) = lastSaveTime s"
  "position_writes (handle_button i s) = position_writes s"
  by (simp_all add: handle_button_def putUChar_def Let_def position_writes_def)

lemma relay_position_effect:
  "notified (relay_position i s) =
     notified s @ (if ble_due i s \<and> pTxCharacteristic s then [generateGGA (gps_fix i)] else [])"
  "lastBleTransmit (relay_position i s) =
     (if ble_due i s then millis_ble_stamp i else lastBleTransmit s)"
  "bleConnected (relay_position i s) = bleConnected s"
  "pTxCharacteristic (relay_position i s) = pTxCharacteristic s"
  "lastSaveTime (relay_position i s) = lastSaveTime s"
  "position_writes (relay_position i s) = position_writes s"
  by (auto simp: relay_position_def sendBleGGA_def notify_def ble_due_def position_writes_def)

lemma save_position_effect:
  "notified (save_position i s) = notified s"
  "lastBleTransmit (save_position i s) = lastBleTransmit s"
  "bleConnected (save_position i s) = bleConnected s"
  "pTxCharacteristic (save_position i s) = pTxCharacteristic s"
  "lastSaveTime (save_position i s) =
     (if save_due i s then millis_save_stamp i else lastSaveTime s)"
  "position_writes (save_position i s) = position_writes s + (if save_due i s then 1 else 0)"
  by (simp_all add: save_position_def putDouble_def position_writes_def)

lemma ble_due_handle_button: "ble_due i (handle_button i s) = ble_due i s"
  by (simp add: ble_due_def handle_button_radio)

lemma save_due_earlier: "save_due i (relay_position i (handle_button i s)) = save_due i s"
  by (simp add: save_due_def relay_position_effect handle_button_radio)

lemma loop_radio:
  "notified (loop i s) =
     notified s @ (if ble_due i s \<and> pTxCharacteristic s then [generateGGA (gps_fix i)] else [])"
  "lastBleTransmit (loop i s) = (if ble_due i s then millis_ble_stamp i else lastBleTransmit s)"
  "bleConnected (loop i s) = bleConnected s"
  "pTxCharacteristic (loop i s) = pTxCharacteristic s"
  by (simp_all add: loop_def save_position_effect relay_position_effect handle_button_radio
      ble_due_handle_button)

lemma loop_store:
  "lastSaveTime (loop i s) = (if save_due i s then millis_save_stamp i else lastSaveTime s)"
  "position_writes (loop i s) = position_writes s + (if save_due i s then 1 else 0)"
  by (simp_all add: loop_def save_position_effect relay_position_effect handle_button_radio
      save_due_earlier)

lemma sends_position_iff: "sends_position i s \<longleftrightarrow> ble_due i s \<and> pTxCharacteristic s"
  by (simp add: sends_position_def loop_radio)

lemma saves_position_iff: "saves_position i s \<longleftrightarrow> save_due i s"
  by (simp add: saves_position_def loop_store)

lemma device_info_sentence_connected:
  "device_info_sentence (s\<lparr>bleConnected := b, bleConnectedCount := c\<rparr>) =
   device_info_sentence s"
  by (simp add: device_info_sentence_def)

lemma onConnect_effect:
  "notified (onConnect s) =
     notified s @ (if pTxCharacteristic s then [device_info_sentence s] else [])"
  "lastBleTransmit (onConnect s) = lastBleTransmit s"
  "bleConnected (onConnect s)"
  "pTxCharacteristic (onConnect s) = pTxCharacteristic s"
  "lastSaveTime (onConnect s) = lastSaveTime s"
  "position_writes (onConnect s) = position_writes s"
  by (simp_all add: onConnect_def sendBleDeviceInfo_def notify_def position_writes_def
      device_info_sentence_connected)

lemma onDisconnect_effect:
  "notified (onDisconnect s) = notified s"
  "lastBleTransmit (onDisconnect s) = lastBleTransmit s"
  "\<not> bleConnected (onDisconnect s)"
  "pTxCharacteristic (onDisconnect s) = pTxCharacteristic s"
  "lastSaveTime (onDisconnect s) = lastSaveTime s"
  "position_writes (onDisconnect s) = position_writes s"
  by (simp_all add: onDisconnect_def position_writes_def)

section \<open>Elapsed time on a clock that does not wrap\<close>

lemma elapsed_more:
  fixes now last limit :: "32 word"
  assumes "unat last \<le> unat now"
  shows "limit < now - last \<longleftrightarrow> unat last + unat limit < unat now"
proof -
  have "last \<le> now" using assms by (simp add: word_le_nat_alt)
  then have "unat (now - last) = unat now - unat last" by (rule unat_sub)
  then show ?thesis using assms by (auto simp: word_less_nat_alt)
qed

lemma sorted_readings_Loop:
  assumes "sorted (t # clock_readings (Loop i # es))"
  shows "t \<le> unat (millis_ble i)" "unat (millis_ble i) \<le> unat (millis_ble_stamp i)"
    "t \<le> unat (millis_save i)" "unat (millis_save i) \<le> unat (millis_save_stamp i)"
    "sorted (t # clock_readings es)"
    "sorted (unat (millis_ble_stamp i) # clock_readings es)"
    "sorted (unat (millis_save_stamp i) # clock_readings es)"
  using assms by (auto simp: clock_readings_def)

lemma sorted_readings_other:
  assumes "sorted (t # clock_readings (e # es))" "e = Connect \<or> e = Disconnect"
  shows "sorted (t # clock_readings es)"
  using assms by (auto simp: clock_readings_def)

section \<open>The cadence of the position sentence\<close>

lemma position_times_apart:
  assumes "sorted (unat (lastBleTransmit s) # clock_readings es)"
  shows "sorted_wrt (\<lambda>a b. unat a + 1000 < unat b) (position_times es s) \<and>
         (\<forall>t \<in> set (position_times es s). unat (lastBleTransmit s) + 1000 < unat t)"
  using assms
proof (induction es arbitrary: s)
  case Nil
  show ?case by simp
next
  case (Cons e es)
  show ?case
  proof (cases e)
    case (Loop i)
    let ?L = "lastBleTransmit s"
    note r = sorted_readings_Loop [OF Cons.prems [unfolded Loop]]
    show ?thesis
    proof (cases "ble_due i s")
      case True
      then have "BLE_TRANSMIT_INTERVAL < millis_ble i - ?L"
        by (simp add: ble_due_def)
      then have far: "unat ?L + 1000 < unat (millis_ble i)"
        using elapsed_more [OF r(1)] by (simp add: BLE_TRANSMIT_INTERVAL_def)
      have L': "lastBleTransmit (loop i s) = millis_ble_stamp i"
        using True by (simp add: loop_radio)
      have ih: "sorted_wrt (\<lambda>a b. unat a + 1000 < unat b) (position_times es (loop i s)) \<and>
          (\<forall>t \<in> set (position_times es (loop i s)). unat (millis_ble_stamp i) + 1000 < unat t)"
        using Cons.IH [of "loop i s"] r(6) by (simp add: L')
      then have later: "\<forall>t \<in> set (position_times es (loop i s)).
          unat (millis_ble i) + 1000 < unat t"
        using r(2) by fastforce
      show ?thesis
        using ih later far by (auto simp: Loop)
    next
      case False
      then have L': "lastBleTransmit (loop i s) = ?L" and n: "\<not> sends_position i s"
        by (simp_all add: loop_radio sends_position_iff)
      show ?thesis
        using Cons.IH [of "loop i s"] r(5) by (simp add: Loop L' n)
    qed
  next
    case Connect
    then show ?thesis
      using Cons.IH [of "onConnect s"] sorted_readings_other [OF Cons.prems]
      by (simp add: onConnect_effect)
  next
    case Disconnect
    then show ?thesis
      using Cons.IH [of "onDisconnect s"] sorted_readings_other [OF Cons.prems]
      by (simp add: onDisconnect_effect)
  qed
qed

lemma info_sentence_head: "\<exists>rest. device_info_sentence s = ''$PATOM,'' @ rest"
proof -
  define body where "body = deviceId s @ '','' @ deviceName s @ ''*''"
  define sentence where "sentence = snprintf 60 (''$PATOM,'' @ body)"
  define t where "t = take 52 body"
  have s: "sentence = ''$PATOM,'' @ t"
    by (simp add: sentence_def snprintf_def t_def)
  define cs where "cs = calcNmeaChecksum sentence"
  have "snprintf 70 (sentence @ fmt_02X cs @ CRLF) = ''$PATOM,'' @ take 62 (t @ fmt_02X cs @ CRLF)"
    by (simp add: s snprintf_def)
  moreover have "device_info_sentence s =
      String_replace ''**'' ''*'' (snprintf 70 (sentence @ fmt_02X cs @ CRLF))"
    by (simp add: device_info_sentence_def Let_def sentence_def cs_def body_def)
  moreover have "String_replace ''**'' ''*'' (''$PATOM,'' @ take 62 (t @ fmt_02X cs @ CRLF)) =
      ''$PATOM,'' @ String_replace ''**'' ''*'' (take 62 (t @ fmt_02X cs @ CRLF))"
    by (rule replace_prefix) simp
  ultimately show ?thesis by metis
qed

lemma info_is_identification:
  "is_identification (device_info_sentence s) \<and> \<not> is_position (device_info_sentence s)"
proof -
  obtain rest where "device_info_sentence s = ''$PATOM,'' @ rest"
    using info_sentence_head by blast
  then show ?thesis by (simp add: is_identification_def is_position_def)
qed

lemma gga_is_position: "is_position (generateGGA gps) \<and> \<not> is_identification (generateGGA gps)"
proof -
  obtain rest where "generateGGA gps = gga_head gps @ rest"
    using generateGGA_head by blast
  then show ?thesis by (simp add: is_identification_def is_position_def gga_head_def)
qed

text \<open>
  Claim C5. Once the transmit characteristic exists, a connect event followed at once by a
  disconnect event sends exactly one message, the identification sentence; so does a
  connect, one loop iteration at which no more than 1000 ms have elapsed since the last
  position sentence, and a disconnect. Whatever a loop iteration sends is a position
  sentence, and on a clock that does not wrap during the run any two iterations that send
  one have readings more than 1000 ms apart.
\<close>

theorem radio_lifecycle:
  assumes "pTxCharacteristic s"
  shows "notified (run [Connect, Disconnect] s) = notified s @ [device_info_sentence s] \<and>
         is_identification (device_info_sentence s) \<and>
         \<not> is_position (device_info_sentence s) \<and>
         (\<not> BLE_TRANSMIT_INTERVAL < millis_ble i - lastBleTransmit s \<longrightarrow>
            notified (run [Connect, Loop i, Disconnect] s) =
              notified s @ [device_info_sentence s]) \<and>
         (sends_position i s \<longrightarrow>
            notified (loop i s) = notified s @ [generateGGA (gps_fix i)] \<and>
            is_position (generateGGA (gps_fix i)) \<and>
            bleConnected s \<and> BLE_TRANSMIT_INTERVAL < millis_ble i - lastBleTransmit s) \<and>
         (\<not> sends_position i s \<longrightarrow> notified (loop i s) = notified s) \<and>
         (sorted (unat (lastBleTransmit s) # clock_readings es) \<longrightarrow>
            sorted_wrt (\<lambda>a b. unat a + 1000 < unat b) (position_times es s))"
proof -
  have a: "notified (run [Connect, Disconnect] s) = notified s @ [device_info_sentence s]"
    using assms by (simp add: onDisconnect_effect onConnect_effect)
  have b: "notified (run [Connect, Loop i, Disconnect] s) =
      notified s @ [device_info_sentence s]"
    if "\<not> BLE_TRANSMIT_INTERVAL < millis_ble i - lastBleTransmit s"
  proof -
    have "\<not> ble_due i (onConnect s)"
      using that by (simp add: ble_due_def onConnect_effect)
    then show ?thesis
      using assms by (simp add: onDisconnect_effect loop_radio onConnect_effect)
  qed
  have c: "notified (loop i s) = notified s @ [generateGGA (gps_fix i)] \<and>
      is_position (generateGGA (gps_fix i)) \<and>
      bleConnected s \<and> BLE_TRANSMIT_INTERVAL < millis_ble i - lastBleTransmit s"
    if "sends_position i s"
    using that gga_is_position [of "gps_fix i"]
    by (simp add: sends_position_iff loop_radio ble_due_def)
  have d: "notified (loop i s) = notified s" if "\<not> sends_position i s"
    using that by (simp add: sends_position_def)
  show ?thesis
    using a b c d info_is_identification [of s] position_times_apart [of s es] by blast
qed

theorem radio_lifecycle_witness:
  "pTxCharacteristic started \<and>
   notified (run [Connect, Disconnect] started) = [device_info_sentence started] \<and>
   \<not> BLE_TRANSMIT_INTERVAL < millis_ble (at_time 500 idle) - lastBleTransmit started \<and>
   notified (run [Connect, Loop (at_time 500 idle), Disconnect] started) =
     [device_info_sentence started] \<and>
   sorted (unat (lastBleTransmit started) #
           clock_readings [Connect, Loop (at_time 2000 idle), Loop (at_time 2500 idle),
                           Loop (at_time 3100 idle)]) \<and>
   position_times [Connect, Loop (at_time 2000 idle), Loop (at_time 2500 idle),
                   Loop (at_time 3100 idle)] started = [2000, 3100] \<and>
   sorted_wrt (\<lambda>a b. unat a + 1000 < unat b)
     (position_times [Connect, Loop (at_time 2000 idle), Loop (at_time 2500 idle),
                      Loop (at_time 3100 idle)] started)"
proof -
  let ?es = "[Connect, Loop (at_time 2000 idle), Loop (at_time 2500 idle),
              Loop (at_time 3100 idle)]"
  have p: "pTxCharacteristic started"
    by (simp add: started_def sketch_setup_def initBLE_def Let_def)
  have n: "notified started = []" and l: "lastBleTransmit started = 0"
    by (simp_all add: started_def sketch_setup_def initBLE_def load_brightness_def
        load_position_def power_on_def Let_def)
  have e: "\<not> BLE_TRANSMIT_INTERVAL < millis_ble (at_time 500 idle) - lastBleTransmit started"
    by (simp add: l at_time_def idle_def BLE_TRANSMIT_INTERVAL_def)
  have c: "sorted (unat (lastBleTransmit started) # clock_readings ?es)"
    by (simp add: l clock_readings_def at_time_def idle_def)
  have t: "position_times ?es started = [2000, 3100]"
    by (simp add: sends_position_iff ble_due_def loop_radio onConnect_effect p l
        BLE_TRANSMIT_INTERVAL_def at_time_def idle_def)
  from radio_lifecycle [OF p, of "at_time 500 idle" ?es] e c
  have "notified (run [Connect, Disconnect] started) =
      notified started @ [device_info_sentence started]"
    and "notified (run [Connect, Loop (at_time 500 idle), Disconnect] started) =
      notified started @ [device_info_sentence started]"
    and "sorted_wrt (\<lambda>a b. unat a + 1000 < unat b) (position_times ?es started)"
    by blast+
  with p e c t show ?thesis
    by (simp only: n append_Nil simp_thms)
qed

section \<open>The cadence of the position save\<close>

lemma save_times_apart:
  assumes "sorted (unat (lastSaveTime s) # clock_readings es)"
  shows "sorted_wrt (\<lambda>a b. unat a + 60000 < unat b) (save_times es s) \<and>
         (\<forall>t \<in> set (save_times es s). unat (lastSaveTime s) + 60000 < unat t)"
  using assms
proof (induction es arbitrary: s)
  case Nil
  show ?case by simp
next
  case (Cons e es)
  show ?case
  proof (cases e)
    case (Loop i)
    let ?L = "lastSaveTime s"
    note r = sorted_readings_Loop [OF Cons.prems [unfolded Loop]]
    show ?thesis
    proof (cases "save_due i s")
      case True
      then have "SAVE_INTERVAL < millis_save i - ?L"
        by (simp add: save_due_def)
      then have far: "unat ?L + 60000 < unat (millis_save i)"
        using elapsed_more [OF r(3)] by (simp add: SAVE_INTERVAL_def)
      have L': "lastSaveTime (loop i s) = millis_save_stamp i"
        using True by (simp add: loop_store)
      have ih: "sorted_wrt (\<lambda>a b. unat a + 60000 < unat b) (save_times es (loop i s)) \<and>
          (\<forall>t \<in> set (save_times es (loop i s)). unat (millis_save_stamp i) + 60000 < unat t)"
        using Cons.IH [of "loop i s"] r(7) by (simp add: L')
      then have later: "\<forall>t \<in> set (save_times es (loop i s)).
          unat (millis_save i) + 60000 < unat t"
        using r(4) by fastforce
      show ?thesis
        using ih later far by (auto simp: Loop)
    next
      case False
      then have L': "lastSaveTime (loop i s) = ?L" and n: "\<not> saves_position i s"
        by (simp_all add: loop_store saves_position_iff)
      show ?thesis
        using Cons.IH [of "loop i s"] r(5) by (simp add: Loop L' n)
    qed
  next
    case Connect
    then show ?thesis
      using Cons.IH [of "onConnect s"] sorted_readings_other [OF Cons.prems]
      by (simp add: onConnect_effect)
  next
    case Disconnect
    then show ?thesis
      using Cons.IH [of "onDisconnect s"] sorted_readings_other [OF Cons.prems]
      by (simp add: onDisconnect_effect)
  qed
qed

lemma position_writes_run:
  "position_writes (run es s) = position_writes s + length (save_times es s)"
proof (induction es arbitrary: s)
  case Nil
  show ?case by simp
next
  case (Cons e es)
  show ?case
    by (cases e)
      (simp_all add: Cons.IH onConnect_effect onDisconnect_effect loop_store saves_position_iff)
qed

lemma loop_saved_values:
  assumes "save_due i s"
  shows "prefs (loop i s) ''lat'' = Some (NvsDouble (location_lat (gps_fix i)))"
    "prefs (loop i s) ''lng'' = Some (NvsDouble (location_lng (gps_fix i)))"
    "lastLat (loop i s) = location_lat (gps_fix i)"
    "lastLng (loop i s) = location_lng (gps_fix i)"
    "hasLastPosition (loop i s)"
  using assms
  by (simp_all add: loop_def save_position_def save_due_earlier putDouble_def)

lemma two_samples_one_write:
  assumes "sorted (unat (lastSaveTime s) # clock_readings [Loop a, Loop b])"
    and "unat (millis_save b) \<le> unat (millis_save a) + 60000"
  shows "position_writes (run [Loop a, Loop b] s) \<le> position_writes s + 1"
proof -
  have "sorted_wrt (\<lambda>x y. unat x + 60000 < unat y) (save_times [Loop a, Loop b] s)"
    using save_times_apart [OF assms(1)] by blast
  then have "\<not> (saves_position a s \<and> saves_position b (loop a s))"
    using assms(2) by auto
  then have "length (save_times [Loop a, Loop b] s) \<le> 1"
    by auto
  moreover have "position_writes (run [Loop a, Loop b] s) =
      position_writes s + length (save_times [Loop a, Loop b] s)"
    by (rule position_writes_run)
  ultimately show ?thesis
    by linarith
qed

lemma started_store:
  "lastSaveTime started = 0" "position_writes started = 0"
  by (simp_all add: started_def sketch_setup_def initBLE_def load_brightness_def
      load_position_def power_on_def Let_def position_writes_def isKey_def)

lemma fix_at_simps:
  "location_isValid (gps_fix (fix_at t))" "millis_save (fix_at t) = t"
  "millis_save_stamp (fix_at t) = t" "millis_ble (fix_at t) = t"
  "millis_ble_stamp (fix_at t) = t"
  by (simp_all add: fix_at_def at_time_def idle_def sample_fix_def no_fix_def)

text \<open>
  Claim C6, as stated, in the first minute after startup: two valid fixes are sampled, at
  30000 ms and at 95000 ms, more than the interval apart; the first is not written, and
  the run makes a single write, at the second.
\<close>

theorem first_fix_not_written:
  "location_isValid (gps_fix (fix_at 30000)) \<and> location_isValid (gps_fix (fix_at 95000)) \<and>
   unat (millis_save (fix_at 30000)) + 60000 < unat (millis_save (fix_at 95000)) \<and>
   \<not> saves_position (fix_at 30000) started \<and>
   save_times [Loop (fix_at 30000), Loop (fix_at 95000)] started = [95000] \<and>
   position_writes (run [Loop (fix_at 30000), Loop (fix_at 95000)] started) = 1"
proof -
  have a: "\<not> save_due (fix_at 30000) started"
    by (simp add: save_due_def fix_at_simps started_store SAVE_INTERVAL_def)
  then have l: "lastSaveTime (loop (fix_at 30000) started) = 0"
    by (simp add: loop_store started_store)
  have b: "save_due (fix_at 95000) (loop (fix_at 30000) started)"
    by (simp add: save_due_def fix_at_simps l SAVE_INTERVAL_def)
  have t: "save_times [Loop (fix_at 30000), Loop (fix_at 95000)] started = [95000]"
    using a b by (simp add: saves_position_iff fix_at_simps)
  have w: "position_writes (run [Loop (fix_at 30000), Loop (fix_at 95000)] started) = 1"
    by (simp only: position_writes_run t started_store) simp
  show ?thesis
    using a t w by (simp add: saves_position_iff fix_at_simps)
qed

text \<open>
  Claim C6, amended. A loop iteration writes the position exactly when the location is
  valid and more than 60000 ms have elapsed since the stamp of the previous write, which
  is 0 until the first write; a write stores the latitude and the longitude of the
  snapshot and stamps the time. On a clock that does not wrap during the run any two
  writes have readings more than 60000 ms apart, so two valid samples within one interval
  cause at most one write.
\<close>

theorem persistence_cadence:
  "(saves_position i s \<longleftrightarrow>
      location_isValid (gps_fix i) \<and> SAVE_INTERVAL < millis_save i - lastSaveTime s) \<and>
   (saves_position i s \<longrightarrow>
      position_writes (loop i s) = position_writes s + 1 \<and>
      prefs (loop i s) ''lat'' = Some (NvsDouble (location_lat (gps_fix i))) \<and>
      prefs (loop i s) ''lng'' = Some (NvsDouble (location_lng (gps_fix i))) \<and>
      lastLat (loop i s) = location_lat (gps_fix i) \<and>
      lastLng (loop i s) = location_lng (gps_fix i) \<and>
      hasLastPosition (loop i s) \<and> lastSaveTime (loop i s) = millis_save_stamp i) \<and>
   (\<not> saves_position i s \<longrightarrow>
      position_writes (loop i s) = position_writes s \<and>
      lastSaveTime (loop i s) = lastSaveTime s) \<and>
   (sorted (unat (lastSaveTime s) # clock_readings es) \<longrightarrow>
      sorted_wrt (\<lambda>a b. unat a + 60000 < unat b) (save_times es s) \<and>
      position_writes (run es s) = position_writes s + length (save_times es s)) \<and>
   (sorted (unat (lastSaveTime s) # clock_readings [Loop a, Loop b]) \<and>
    unat (millis_save b) \<le> unat (millis_save a) + 60000 \<longrightarrow>
      position_writes (run [Loop a, Loop b] s) \<le> position_writes s + 1)"
proof -
  have "saves_position i s \<longleftrightarrow>
      location_isValid (gps_fix i) \<and> SAVE_INTERVAL < millis_save i - lastSaveTime s"
    by (simp add: saves_position_iff save_due_def)
  moreover have "position_writes (loop i s) = position_writes s + 1 \<and>
      prefs (loop i s) ''lat'' = Some (NvsDouble (location_lat (gps_fix i))) \<and>
      prefs (loop i s) ''lng'' = Some (NvsDouble (location_lng (gps_fix i))) \<and>
      lastLat (loop i s) = location_lat (gps_fix i) \<and>
      lastLng (loop i s) = location_lng (gps_fix i) \<and>
      hasLastPosition (loop i s) \<and> lastSaveTime (loop i s) = millis_save_stamp i"
    if "saves_position i s"
    using that loop_saved_values [of i s] by (simp add: saves_position_iff loop_store)
  moreover have "position_writes (loop i s) = position_writes s \<and>
      lastSaveTime (loop i s) = lastSaveTime s"
    if "\<not> saves_position i s"
    using that by (simp add: saves_position_iff loop_store)
  ultimately show ?thesis
    using save_times_apart [of s es] position_writes_run [of es s]
      two_samples_one_write [of s a b]
    by blast
qed

theorem persistence_cadence_witness:
  "sorted (unat (lastSaveTime started) #
           clock_readings [Loop (fix_at 61000), Loop (fix_at 95000), Loop (fix_at 130000)]) \<and>
   save_times [Loop (fix_at 61000), Loop (fix_at 95000), Loop (fix_at 130000)] started =
     [61000, 130000] \<and>
   sorted_wrt (\<lambda>a b. unat a + 60000 < unat b)
     (save_times [Loop (fix_at 61000), Loop (fix_at 95000), Loop (fix_at 130000)] started) \<and>
   position_writes
     (run [Loop (fix_at 61000), Loop (fix_at 95000), Loop (fix_at 130000)] started) = 2 \<and>
   saves_position (fix_at 61000) started \<and>
   prefs (loop (fix_at 61000) started) ''lat'' = Some (NvsDouble (to_double (37422 / 1000)))"
proof -
  let ?es = "[Loop (fix_at 61000), Loop (fix_at 95000), Loop (fix_at 130000)]"
  have c: "sorted (unat (lastSaveTime started) # clock_readings ?es)"
    by (simp add: started_store clock_readings_def fix_at_simps)
  have d1: "save_due (fix_at 61000) started"
    by (simp add: save_due_def fix_at_simps started_store SAVE_INTERVAL_def)
  then have l1: "lastSaveTime (loop (fix_at 61000) started) = 61000"
    by (simp add: loop_store fix_at_simps)
  have d2: "\<not> save_due (fix_at 95000) (loop (fix_at 61000) started)"
    by (simp add: save_due_def fix_at_simps l1 SAVE_INTERVAL_def)
  have l2: "lastSaveTime (loop (fix_at 95000) (loop (fix_at 61000) started)) = 61000"
    using d2 l1 by (simp only: loop_store if_False)
  have d3: "save_due (fix_at 130000) (loop (fix_at 95000) (loop (fix_at 61000) started))"
    by (simp add: save_due_def fix_at_simps l2 SAVE_INTERVAL_def)
  have t: "save_times ?es started = [61000, 130000]"
    using d1 d2 d3 by (simp add: saves_position_iff fix_at_simps)
  have s: "saves_position (fix_at 61000) started"
    using d1 by (simp add: saves_position_iff)
  have v: "location_lat (gps_fix (fix_at 61000)) = to_double (37422 / 1000)"
    by (simp add: fix_at_def at_time_def idle_def sample_fix_def no_fix_def)
  from persistence_cadence [of "fix_at 61000" started ?es] c s
  have "sorted_wrt (\<lambda>a b. unat a + 60000 < unat b) (save_times ?es started)"
    and "position_writes (run ?es started) = position_writes started + length (save_times ?es started)"
    and "prefs (loop (fix_at 61000) started) ''lat'' =
      Some (NvsDouble (location_lat (gps_fix (fix_at 61000))))"
    by blast+
  with c t s show ?thesis
    by (simp add: started_store v)
qed

end
